theory Spec2Isabelle
  imports Main
begin

section \<open>Strings\<close>

text \<open>
  Strings are byte strings. The three string operations the program uses are
  Python's \<^verbatim>\<open>str.endswith\<close>, \<^verbatim>\<open>str.lower\<close> (on the ASCII letters) and
  \<^verbatim>\<open>str.replace\<close> (every non-overlapping occurrence, left to right), and
  JavaScript's \<^verbatim>\<open>String.prototype.replace\<close> with a string pattern (the first
  occurrence only).
\<close>

definition startswith :: "string \<Rightarrow> string \<Rightarrow> bool" where
  "startswith s p = (take (length p) s = p)"

definition endswith :: "string \<Rightarrow> string \<Rightarrow> bool" where
  "endswith s p = (length p \<le> length s \<and> drop (length s - length p) s = p)"

definition lower_char :: "char \<Rightarrow> char" where
  "lower_char c =
     (let n = (of_char c :: nat) in if 65 \<le> n \<and> n \<le> 90 then char_of (n + 32) else c)"

definition lower :: "string \<Rightarrow> string" where
  "lower s = map lower_char s"

text \<open>Python: \<^verbatim>\<open>s.replace(old, new)\<close>.\<close>

function py_replace :: "string \<Rightarrow> string \<Rightarrow> string \<Rightarrow> string" where
  "py_replace s old new =
     (if old = [] then new @ concat (map (\<lambda>c. c # new) s)
      else if s = [] then []
      else if startswith s old then new @ py_replace (drop (length old) s) old new
      else hd s # py_replace (tl s) old new)"
  by pat_completeness auto
termination
  by (relation "measure (\<lambda>(s, old, new). length s)") auto

declare py_replace.simps [simp del]

text \<open>JavaScript: \<^verbatim>\<open>s.replace(old, new)\<close> with a string \<^verbatim>\<open>old\<close>.\<close>

fun js_replace :: "string \<Rightarrow> string \<Rightarrow> string \<Rightarrow> string" where
  "js_replace [] old new = (if old = [] then new else [])"
| "js_replace (c # cs) old new =
     (if startswith (c # cs) old then new @ drop (length old) (c # cs)
      else c # js_replace cs old new)"

section \<open>The image inventory\<close>

text \<open>
  An \<^verbatim>\<open><img>\<close> element as \<^verbatim>\<open>process_image_optimization\<close> reads it: the
  \<^verbatim>\<open>src\<close> and \<^verbatim>\<open>alt\<close> attributes (absent attributes are \<^verbatim>\<open>None\<close>) and the
  natural dimensions.
\<close>

record img_element =
  src_attr :: "string option"
  alt_attr :: "string option"
  naturalWidth :: int
  naturalHeight :: int

text \<open>An entry of \<^verbatim>\<open>image_list\<close>.\<close>

record image_entry =
  src :: string
  alt :: "string option"
  width :: int
  height :: int
  size :: int

text \<open>
  \<^verbatim>\<open>is_image_accessible\<close>: the answer of \<^verbatim>\<open>requests.head\<close> is the status code, or
  \<^verbatim>\<open>None\<close> when the request raises \<^verbatim>\<open>RequestException\<close>.
\<close>

definition is_image_accessible :: "(string \<Rightarrow> nat option) \<Rightarrow> string \<Rightarrow> bool" where
  "is_image_accessible head url =
     (case head url of Some status_code \<Rightarrow> status_code = 200 | None \<Rightarrow> False)"

text \<open>
  One pass of the collecting loop over an element. \<^verbatim>\<open>urljoin\<close> is the standard
  library's and is a parameter.
\<close>

definition collect_image ::
  "(string \<Rightarrow> string \<Rightarrow> string) \<Rightarrow> (string \<Rightarrow> nat option) \<Rightarrow> string \<Rightarrow> img_element
     \<Rightarrow> image_entry option" where
  "collect_image urljoin head url img =
     (case src_attr img of
        None \<Rightarrow> None
      | Some s \<Rightarrow>
          if s \<noteq> [] \<and> \<not> endswith (lower s) ''.svg'' then
            (let absolute_src = urljoin url s in
             if \<not> is_image_accessible head absolute_src then None
             else if naturalWidth img > 300 \<and> naturalHeight img > 300 then
               Some \<lparr>src = absolute_src, alt = alt_attr img,
                     width = naturalWidth img, height = naturalHeight img,
                     size = naturalWidth img * naturalHeight img\<rparr>
             else None)
          else None)"

definition collect_images ::
  "(string \<Rightarrow> string \<Rightarrow> string) \<Rightarrow> (string \<Rightarrow> nat option) \<Rightarrow> string \<Rightarrow> img_element list
     \<Rightarrow> image_entry list" where
  "collect_images urljoin head url images =
     List.map_filter (collect_image urljoin head url) images"

text \<open>
  \<^verbatim>\<open>image_list.sort(key=lambda x: x['size'], reverse=True)\<close> is a stable sort in
  descending order; \<^verbatim>\<open>image_list[:10]\<close> keeps the first ten.
\<close>

definition image_inventory ::
  "(string \<Rightarrow> string \<Rightarrow> string) \<Rightarrow> (string \<Rightarrow> nat option) \<Rightarrow> string \<Rightarrow> img_element list
     \<Rightarrow> image_entry list" where
  "image_inventory urljoin head url images =
     take 10 (sort_key (\<lambda>x. - size x) (collect_images urljoin head url images))"

text \<open>The code's condition for an element to enter \<^verbatim>\<open>image_list\<close>.\<close>

definition eligible ::
  "(string \<Rightarrow> string \<Rightarrow> string) \<Rightarrow> (string \<Rightarrow> nat option) \<Rightarrow> string \<Rightarrow> img_element \<Rightarrow> bool" where
  "eligible urljoin head url img =
     (case src_attr img of
        None \<Rightarrow> False
      | Some s \<Rightarrow> s \<noteq> [] \<and> \<not> endswith (lower s) ''.svg''
          \<and> head (urljoin url s) = Some 200
          \<and> naturalWidth img > 300 \<and> naturalHeight img > 300)"

text \<open>The entry that an eligible element contributes.\<close>

definition entry_of :: "(string \<Rightarrow> string \<Rightarrow> string) \<Rightarrow> string \<Rightarrow> img_element \<Rightarrow> image_entry" where
  "entry_of urljoin url img =
     \<lparr>src = urljoin url (case src_attr img of None \<Rightarrow> [] | Some s \<Rightarrow> s), alt = alt_attr img,
      width = naturalWidth img, height = naturalHeight img,
      size = naturalWidth img * naturalHeight img\<rparr>"

text \<open>
  The matching of the replacement script: both URLs are normalised in JavaScript by
  \<^verbatim>\<open>url.replace('www.', '')\<close> before they are compared.
\<close>

definition normalize_url :: "string \<Rightarrow> string" where
  "normalize_url u = js_replace u ''www.'' []"

text \<open>Whether the pattern occurs somewhere in the string.\<close>

fun contains :: "string \<Rightarrow> string \<Rightarrow> bool" where
  "contains [] p = (p = [])"
| "contains (c # cs) p = (startswith (c # cs) p \<or> contains cs p)"

section \<open>Arithmetic of the viewport\<close>

text \<open>
  \<^verbatim>\<open>int(viewport_height * 1.1)\<close> multiplies a Python \<^verbatim>\<open>int\<close> by the binary64 constant
  nearest to 1.1, which is \<open>2476979795053773 / 2^51\<close>, and truncates. The
  arithmetic is written out on natural numbers: \<open>round53\<close> rounds to 53 significant
  bits, ties to even, which is what both the conversion of the \<^verbatim>\<open>int\<close> to a float and
  the multiplication do. A value of \<open>2^1024\<close> or more does not fit a float, and the code
  raises \<^verbatim>\<open>OverflowError\<close>, either in the conversion or in \<^verbatim>\<open>int()\<close> of infinity.
\<close>

fun bit_length :: "nat \<Rightarrow> nat" where
  "bit_length n = (if n = 0 then 0 else Suc (bit_length (n div 2)))"

declare bit_length.simps [simp del]

definition round53 :: "nat \<Rightarrow> nat" where
  "round53 p =
     (let k = bit_length p - 53; q = p div 2 ^ k; r = p mod 2 ^ k
      in if 2 ^ k < 2 * r \<or> (2 * r = 2 ^ k \<and> odd q) then (q + 1) * 2 ^ k else q * 2 ^ k)"

definition float_of_int :: "nat \<Rightarrow> nat option" where
  "float_of_int h = (let f = round53 h in if 2 ^ 1024 \<le> f then None else Some f)"

definition int_times_1_1 :: "nat \<Rightarrow> nat option" where
  "int_times_1_1 h =
     (case float_of_int h of
        None \<Rightarrow> None
      | Some f \<Rightarrow>
          (let m = round53 (f * 2476979795053773)
           in if 2 ^ 1075 \<le> m then None else Some (m div 2 ^ 51)))"

section \<open>Data of the optimization runs\<close>

text \<open>The structured outputs of the agents (\<^verbatim>\<open>core/model.py\<close>).\<close>

record JSOutput =
  script :: string
  change_description :: string

record Evaluation =
  feedback :: string
  score :: string

record ImageChange =
  image_url :: string
  change_description :: string

text \<open>
  The conversation: a message of role user holds either a string or a list of content
  parts; \<open>agent_item\<close> is an item produced by an agent run.
\<close>

datatype content = input_text string | input_image string

datatype item = user_text string | user_message "content list" | agent_item string

text \<open>
  What \<^verbatim>\<open>Runner.run(coder, input_items)\<close> gives: the final output and the items that
  \<^verbatim>\<open>to_input_list()\<close> appends to the input.
\<close>

record coder_result =
  final_output :: JSOutput
  new_items :: "item list"

text \<open>
  A script handed to \<^verbatim>\<open>page.evaluate\<close>: a script written by the coder, or the
  replacement script \<^verbatim>\<open>js_code\<close>, which is a fixed template around the original image
  URL and the text of the new one.
\<close>

datatype js = coder_script string | replace_image_script string string

text \<open>
  The browser page: its address, its \<^verbatim>\<open><img>\<close> elements in document order, the viewport,
  and the scripts evaluated on it so far, oldest first. The effect of a coder's script
  on the document is not known, so the page after it is the page with the script recorded.
\<close>

record page =
  location :: string
  imgs :: "img_element list"
  viewport_width :: nat
  viewport_height :: nat
  evaluated :: "js list"

text \<open>What a run does, in order.\<close>

datatype event =
    CoderRun
  | SpecialistRun
  | EvaluatorRun Evaluation
  | PageEvaluate js
  | SetViewportSize nat nat
  | ViewportScreenshot nat
  | FullPageScreenshot
  | FileWrite string
  | LogAppend string string
  | HttpGet string
  | ImagesEdit
  | Upload string
  | BrowserClose

datatype error = OverflowError | AgentError | ScriptError | FileNotFoundError

text \<open>
  The state a run works on: the page, the files (path to content), the conversation
  \<^verbatim>\<open>input_items\<close>, and the events so far.
\<close>

record state =
  page :: page
  fs :: "string \<rightharpoonup> string"
  input_items :: "item list"
  trace :: "event list"

text \<open>
  Everything outside the program. A call made inside a retry loop takes the number of
  the loop iteration that makes it, so that it may answer differently each time.
  An agent run that raises is \<open>None\<close>; so is a request that raises.
  \<^item> \<open>urlparse_netloc\<close>, \<open>urljoin\<close>, \<open>b64encode\<close>: the standard library;
  \<^item> \<open>dom_images\<close>: the \<^verbatim>\<open><img>\<close> elements of the page loaded from a URL;
  \<^item> \<open>page_screenshot full_page pg\<close>: the bytes of \<^verbatim>\<open>page.screenshot\<close>;
  \<^item> \<open>text_elements\<close>: the result of \<^verbatim>\<open>get_text_elements\<close>, as text;
  \<^item> \<open>script_throws pg code\<close>: whether a coder's script, evaluated on the page, throws,
    so that \<^verbatim>\<open>page.evaluate\<close> raises;
  \<^item> \<open>image_specialist\<close>: \<open>Some None\<close> is a result without \<^verbatim>\<open>final_output\<close>;
  \<^item> \<open>requests_get\<close>: status code and content;
  \<^item> \<open>to_png\<close>: the conversion by PIL, \<open>None\<close> when it raises;
  \<^item> \<open>images_edit\<close>: the decoded image of \<^verbatim>\<open>client.images.edit\<close>, from the PNG, the
    prompt template and the specialist's output; \<open>None\<close> when anything there raises;
  \<^item> \<open>github_get\<close>: status code and the \<^verbatim>\<open>sha\<close> of the answer, if it has one;
  \<^item> \<open>github_put api_url content sha\<close>: status code;
  \<^item> \<open>URL_href u base\<close>: JavaScript's \<^verbatim>\<open>new URL(u, base).href\<close>, \<open>None\<close> when it throws;
  \<^item> \<open>wait_for_image\<close>: whether the waits for the replaced image all succeed.

  The other commands of the browser (opening the page, resizing, capturing) and the
  writes to files are taken to complete. The waits of the text run only print a warning
  when they time out, and are left out. Folders, which
  \<^verbatim>\<open>os.makedirs\<close> creates before anything is written into them, are not part of the
  files, and neither is the temporary file of the image conversion, which lies outside
  the site's folder.
\<close>

record world =
  urlparse_netloc :: "string \<Rightarrow> string"
  urljoin :: "string \<Rightarrow> string \<Rightarrow> string"
  b64encode :: "string \<Rightarrow> string"
  dom_images :: "string \<Rightarrow> img_element list"
  page_screenshot :: "bool \<Rightarrow> page \<Rightarrow> string"
  text_elements :: "page \<Rightarrow> string"
  script_throws :: "page \<Rightarrow> string \<Rightarrow> bool"
  coder :: "nat \<Rightarrow> item list \<Rightarrow> coder_result option"
  evaluator :: "nat \<Rightarrow> item list \<Rightarrow> Evaluation option"
  requests_head :: "string \<Rightarrow> nat option"
  image_specialist :: "item list \<Rightarrow> ImageChange option option"
  requests_get :: "nat \<Rightarrow> string \<Rightarrow> (nat \<times> string) option"
  to_png :: "string \<Rightarrow> string option"
  images_edit :: "nat \<Rightarrow> string \<Rightarrow> string \<Rightarrow> ImageChange \<Rightarrow> string option"
  uuid4 :: "nat \<Rightarrow> string"
  github_repo :: "string option"
  github_token :: "string option"
  github_get :: "nat \<Rightarrow> string \<Rightarrow> (nat \<times> string option) option"
  github_put :: "nat \<Rightarrow> string \<Rightarrow> string \<Rightarrow> string option \<Rightarrow> nat option"
  URL_href :: "string \<Rightarrow> string \<Rightarrow> string option"
  wait_for_image :: "nat \<Rightarrow> page \<Rightarrow> bool"
  image_evaluator :: "nat \<Rightarrow> item list \<Rightarrow> Evaluation option"

text \<open>How one pass of a retry loop ends, and how a run ends.\<close>

datatype ('a, 'r) step = Continue 'a | Break 'r 'a | Raise error 'a

datatype ('r, 'a) outcome = Returned 'r 'a | Raised error 'a | Unfinished 'a

definition newline :: string where
  "newline = [CHR 0x0A]"

definition log_line :: "string \<Rightarrow> string" where
  "log_line description = ''- '' @ description @ newline"

text \<open>\<^verbatim>\<open>open(path, "a")\<close> and one \<^verbatim>\<open>write\<close>: an absent file reads as empty.\<close>

definition append_file :: "(string \<rightharpoonup> string) \<Rightarrow> string \<Rightarrow> string \<Rightarrow> (string \<rightharpoonup> string)" where
  "append_file files path text =
     files(path \<mapsto> (case files path of None \<Rightarrow> [] | Some old \<Rightarrow> old) @ text)"

definition emit :: "event list \<Rightarrow> state \<Rightarrow> state" where
  "emit es s = s\<lparr>trace := trace s @ es\<rparr>"

section \<open>core/util.py\<close>

definition get_past_changes :: "(string \<rightharpoonup> string) \<Rightarrow> string \<Rightarrow> string" where
  "get_past_changes files site_folder =
     (if site_folder = [] then []
      else case files (site_folder @ ''/log.txt'') of None \<Rightarrow> [] | Some text \<Rightarrow> text)"

definition get_site_folder :: "world \<Rightarrow> string \<Rightarrow> string" where
  "get_site_folder w url = ''sites/'' @ py_replace (urlparse_netloc w url) ''www.'' []"

text \<open>
  \<^verbatim>\<open>take_viewport_screenshot\<close>: the viewport is resized, then captured; the result is
  the Base64 text of the capture.
\<close>

definition take_viewport_screenshot :: "world \<Rightarrow> state \<Rightarrow> error + (state \<times> string)" where
  "take_viewport_screenshot w s =
     (case int_times_1_1 (viewport_height (page s)) of
        None \<Rightarrow> Inl OverflowError
      | Some h \<Rightarrow>
          (let pg = (page s)\<lparr>viewport_width := viewport_width (page s), viewport_height := h\<rparr>;
               screenshot_bytes = page_screenshot w False pg
           in Inr (emit [SetViewportSize (viewport_width (page s)) h, ViewportScreenshot h]
                     (s\<lparr>page := pg\<rparr>),
                   b64encode w screenshot_bytes)))"

section \<open>process_text_optimization\<close>

record text_result =
  coder_response :: string
  evaluator_response :: string
  screenshot :: string
  script :: string

definition coder_prompt :: "string \<Rightarrow> string \<Rightarrow> string" where
  "coder_prompt past_changes elements =
     newline @ ''# Overview'' @ newline
     @ ''Based on the screenshot, please generate a single change for one specific header or button of a webpage, with the goal of increasing conversion rate while preserving the original tone, meaning, and visual layout.''
     @ newline @ newline
     @ ''# Past changes - do not repeat the same change, can be same selector but different text:''
     @ newline @ past_changes @ newline @ newline
     @ ''# Text elements selectors:'' @ newline @ elements @ newline"

definition data_url :: "string \<Rightarrow> string" where
  "data_url base64 = ''data:image/jpeg;base64,'' @ base64"

definition result_request :: string where
  "result_request = ''The result screenshot is below. Please analyze the change and give suggestions on how to improve it visually. Also check if the change is still working as expected.''"

text \<open>
  \<^verbatim>\<open>page.evaluate(script)\<close> for a script of the coder. The call is made and the script
  is started in every case; when the script throws, the call raises, and neither caller
  catches that.
\<close>

definition script_started :: "string \<Rightarrow> state \<Rightarrow> state" where
  "script_started code s =
     emit [PageEvaluate (coder_script code)]
       (s\<lparr>page := (page s)\<lparr>evaluated := evaluated (page s) @ [coder_script code]\<rparr>\<rparr>)"

definition evaluate_script :: "world \<Rightarrow> string \<Rightarrow> state \<Rightarrow> error + state" where
  "evaluate_script w code s =
     (if script_throws w (page s) code then Inl ScriptError else Inr (script_started code s))"

text \<open>One pass of the \<^verbatim>\<open>while True\<close> loop; \<open>i\<close> counts the passes from 0.\<close>

definition text_iteration :: "world \<Rightarrow> string \<Rightarrow> nat \<Rightarrow> state \<Rightarrow> (state, text_result) step" where
  "text_iteration w site_folder i s =
     (case coder w i (input_items s) of
        None \<Rightarrow> Raise AgentError (emit [CoderRun] s)
      | Some run \<Rightarrow>
          (let out = final_output run;
               script_path = site_folder @ ''/script.js'';
               s1 = emit [CoderRun, FileWrite script_path]
                      (s\<lparr>fs := (fs s)(script_path \<mapsto> JSOutput.script out)\<rparr>);
               s2 = s1\<lparr>input_items := input_items s1 @ new_items run\<rparr>
           in case evaluate_script w (JSOutput.script out) s2 of
                Inl e \<Rightarrow> Raise e (script_started (JSOutput.script out) s2)
              | Inr s3 \<Rightarrow>
                  (case take_viewport_screenshot w s3 of
                     Inl e \<Rightarrow> Raise e s3
                   | Inr (s4, base64_image) \<Rightarrow>
                       (let s5 = s4\<lparr>input_items := input_items s4
                                   @ [user_message [input_text result_request,
                                                    input_image (data_url base64_image)]]\<rparr>
                        in case evaluator w i (input_items s5) of
                             None \<Rightarrow> Raise AgentError s5
                           | Some result \<Rightarrow>
                               (let s6 = emit [EvaluatorRun result] s5
                                in if score result = ''pass'' then
                                     (case evaluate_script w (JSOutput.script out) s6 of
                                        Inl e \<Rightarrow> Raise e (script_started (JSOutput.script out) s6)
                                      | Inr s7 \<Rightarrow>
                                          (case take_viewport_screenshot w s7 of
                                             Inl e \<Rightarrow> Raise e s7
                                           | Inr (s8, final_screenshot) \<Rightarrow>
                                               (let log_file = site_folder @ ''/log.txt'';
                                                    line = log_line (JSOutput.change_description out);
                                                    s9 = emit [LogAppend log_file line]
                                                           (s8\<lparr>fs := append_file (fs s8) log_file line\<rparr>)
                                                in Break
                                                     \<lparr>coder_response = JSOutput.change_description out,
                                                      evaluator_response = feedback result,
                                                      screenshot = final_screenshot,
                                                      script = JSOutput.script out\<rparr> s9)))
                                   else Continue (s6\<lparr>input_items := input_items s6
                                          @ [user_text (''Feedback: '' @ feedback result)]\<rparr>))))))"

text \<open>
  A \<^verbatim>\<open>while True\<close> loop around a body. The loop has no bound of its own: \<open>fuel\<close>
  bounds the passes the model follows, and \<open>Unfinished\<close> is the loop still running when
  the fuel is spent.
\<close>

fun while_true :: "nat \<Rightarrow> (nat \<Rightarrow> 'a \<Rightarrow> ('a, 'r) step) \<Rightarrow> nat \<Rightarrow> 'a \<Rightarrow> ('r, 'a) outcome" where
  "while_true 0 body i s = Unfinished s"
| "while_true (Suc fuel) body i s =
     (case body i s of
        Continue s' \<Rightarrow> while_true fuel body (Suc i) s'
      | Break r s' \<Rightarrow> Returned r s'
      | Raise e s' \<Rightarrow> Raised e s')"

text \<open>The page as \<^verbatim>\<open>page.goto(url)\<close> leaves it, in the context's viewport.\<close>

definition open_page :: "world \<Rightarrow> string \<Rightarrow> page" where
  "open_page w url =
     \<lparr>location = url, imgs = dom_images w url,
      viewport_width = 1920, viewport_height = 800, evaluated = []\<rparr>"

text \<open>The statements before the loop.\<close>

definition text_setup :: "world \<Rightarrow> (string \<rightharpoonup> string) \<Rightarrow> string \<Rightarrow> error + state" where
  "text_setup w files url =
     (let s0 = \<lparr>page = open_page w url, fs = files, input_items = [], trace = []\<rparr>;
          site_folder = get_site_folder w url
      in case int_times_1_1 (viewport_height (page s0)) of
           None \<Rightarrow> Inl OverflowError
         | Some h \<Rightarrow>
             (let s1 = emit [SetViewportSize (viewport_width (page s0)) h]
                         (s0\<lparr>page := (page s0)\<lparr>viewport_width := viewport_width (page s0),
                                                  viewport_height := h\<rparr>\<rparr>);
                  elements = text_elements w (page s1)
              in case take_viewport_screenshot w s1 of
                   Inl e \<Rightarrow> Inl e
                 | Inr (s2, base64_image) \<Rightarrow>
                     (let past_changes = get_past_changes (fs s2) site_folder
                      in Inr (s2\<lparr>input_items :=
                                  [user_text (coder_prompt past_changes elements),
                                   user_message [input_image (data_url base64_image)]]\<rparr>))))"

definition process_text_optimization ::
  "nat \<Rightarrow> world \<Rightarrow> (string \<rightharpoonup> string) \<Rightarrow> string \<Rightarrow> (text_result, state) outcome" where
  "process_text_optimization fuel w files url =
     (case text_setup w files url of
        Inl e \<Rightarrow> Raised e \<lparr>page = open_page w url, fs = files, input_items = [], trace = []\<rparr>
      | Inr s \<Rightarrow>
          (case while_true fuel (text_iteration w (get_site_folder w url)) 0 s of
             Returned r s' \<Rightarrow> Returned r (emit [BrowserClose] s')
           | Raised e s' \<Rightarrow> Raised e s'
           | Unfinished s' \<Rightarrow> Unfinished s'))"

section \<open>upload_to_github\<close>

text \<open>Python's \<^verbatim>\<open>str(x)\<close> of an optional string, as an f-string formats it.\<close>

definition py_str :: "string option \<Rightarrow> string" where
  "py_str x = (case x of None \<Rightarrow> ''None'' | Some t \<Rightarrow> t)"

text \<open>\<^verbatim>\<open>os.path.join\<close> of two parts and \<^verbatim>\<open>os.path.basename\<close>, on POSIX paths.\<close>

definition path_join :: "string \<Rightarrow> string \<Rightarrow> string" where
  "path_join a b =
     (if startswith b ''/'' then b
      else if a = [] \<or> endswith a ''/'' then a @ b
      else a @ ''/'' @ b)"

definition basename :: "string \<Rightarrow> string" where
  "basename path = rev (takeWhile (\<lambda>c. c \<noteq> CHR ''/'') (rev path))"

text \<open>\<^verbatim>\<open>s.split(d)\<close> for a separator of one character.\<close>

fun split_on :: "char \<Rightarrow> string \<Rightarrow> string list" where
  "split_on d [] = [[]]"
| "split_on d (c # cs) =
     (if c = d then [] # split_on d cs
      else case split_on d cs of [] \<Rightarrow> [[c]] | part # parts \<Rightarrow> (c # part) # parts)"

text \<open>
  The result is the raw URL, or \<^verbatim>\<open>None\<close>; the only exception that leaves the function
  is that of opening the file. \<open>i\<close> is the pass of the caller's loop.
\<close>

definition upload_to_github ::
  "world \<Rightarrow> nat \<Rightarrow> (string \<rightharpoonup> string) \<Rightarrow> string \<Rightarrow> string option \<Rightarrow> error + string option" where
  "upload_to_github w i files file_path repo_name =
     (case github_token w of
        None \<Rightarrow> Inr None
      | Some token \<Rightarrow>
          if token = [] then Inr None
          else
            (case files file_path of
               None \<Rightarrow> Inl FileNotFoundError
             | Some content \<Rightarrow>
                 (let content_b64 = b64encode w content;
                      api_url = ''https://api.github.com/repos/'' @ py_str repo_name
                                @ ''/contents/'' @ basename file_path;
                      sha = (case github_get w i api_url of
                               None \<Rightarrow> None
                             | Some (status_code, sha_field) \<Rightarrow>
                                 if status_code = 200 then sha_field else None);
                      sent_sha = (case sha of None \<Rightarrow> None
                                  | Some h \<Rightarrow> if h = [] then None else Some h)
                  in case github_put w i api_url content_b64 sent_sha of
                       None \<Rightarrow> Inr None
                     | Some status_code \<Rightarrow>
                         if status_code = 201 \<or> status_code = 200 then
                           (case repo_name of
                              None \<Rightarrow> Inr None
                            | Some name \<Rightarrow>
                                (case split_on (CHR ''/'') name of
                                   [owner, repo] \<Rightarrow>
                                     Inr (Some (''https://raw.githubusercontent.com/'' @ owner
                                                @ ''/'' @ repo @ ''/main/'' @ basename file_path))
                                 | _ \<Rightarrow> Inr None))
                         else Inr None)))"

section \<open>process_image_optimization\<close>

text \<open>The variables of the function that the loop assigns and the final dictionary reads.\<close>

record image_locals =
  new_image_url :: "string option"
  screenshot_base64 :: string
  js_code :: "js option"
  result :: "Evaluation option"

record image_result =
  image_specialist_response :: string
  original_image_url :: string
  new_image_url :: "string option"
  screenshot :: string
  js_code :: "js option"
  evaluator_response :: "string option"

definition specialist_request :: "string \<Rightarrow> image_entry list \<Rightarrow> item list" where
  "specialist_request base64 image_list =
     [user_message
        (input_text ''Among all of the images within this site, which image should we change and how should we change it for increasing the conversion rate of the entire website ? First, this is the entire site screenshot:''
         # input_image (data_url base64)
         # concat (map (\<lambda>image. [input_text (''This image url is: '' @ src image),
                                   input_image (src image)]) image_list))]"

definition evaluation_request :: "string \<Rightarrow> string" where
  "evaluation_request description =
     newline @ ''The image has been changed according to the following description:'' @ newline
     @ description @ newline @ newline
     @ ''Please evaluate if the new image is visually correct and properly integrated into the page.''
     @ newline"

text \<open>
  The replacement script \<^verbatim>\<open>js_code\<close>, run on the elements in document order: the first
  element whose normalised URL equals the normalised target gets the new source, and
  the loop stops. \<open>href\<close> is \<^verbatim>\<open>new URL(u, window.location.href).href\<close>; when it throws,
  nothing has been changed yet. An element without \<^verbatim>\<open>src\<close> has the empty \<^verbatim>\<open>img.src\<close>.
  The template does not escape the two URLs it places between quotes, which are taken
  to hold no quote.
\<close>

fun replace_src ::
  "(string \<Rightarrow> string option) \<Rightarrow> string \<Rightarrow> string \<Rightarrow> img_element list \<Rightarrow> img_element list option" where
  "replace_src href targetUrl new [] = Some []"
| "replace_src href targetUrl new (img # rest) =
     (case href (case src_attr img of None \<Rightarrow> [] | Some a \<Rightarrow> a) of
        None \<Rightarrow> None
      | Some imgUrl \<Rightarrow>
          if normalize_url imgUrl = normalize_url targetUrl
          then Some (img\<lparr>src_attr := Some new\<rparr> # rest)
          else map_option ((#) img) (replace_src href targetUrl new rest))"

definition run_replace_image :: "world \<Rightarrow> string \<Rightarrow> string \<Rightarrow> page \<Rightarrow> page option" where
  "run_replace_image w original new pg =
     (case URL_href w original (location pg) of
        None \<Rightarrow> None
      | Some targetUrl \<Rightarrow>
          (case replace_src (\<lambda>u. URL_href w u (location pg)) targetUrl new (imgs pg) of
             None \<Rightarrow> None
           | Some changed \<Rightarrow>
               Some (pg\<lparr>imgs := changed,
                        evaluated := evaluated pg @ [replace_image_script original new]\<rparr>)))"

text \<open>The inner \<^verbatim>\<open>try\<close> of the loop: wait, capture, evaluate, decide.\<close>

definition observe_and_evaluate ::
  "world \<Rightarrow> string \<Rightarrow> ImageChange \<Rightarrow> nat \<Rightarrow> state \<times> image_locals
     \<Rightarrow> (state \<times> image_locals, unit) step" where
  "observe_and_evaluate w sites_dir change i sl =
     (case sl of (s, l) \<Rightarrow>
        if \<not> wait_for_image w i (page s) then Break () (s, l)
        else
          (let shot = page_screenshot w True (page s);
               screenshot_path = path_join sites_dir ''after_replacement.png'';
               s1 = emit [FullPageScreenshot, FileWrite screenshot_path]
                      (s\<lparr>fs := (fs s)(screenshot_path \<mapsto> shot)\<rparr>);
               l1 = l\<lparr>screenshot_base64 := b64encode w shot\<rparr>;
               s2 = s1\<lparr>input_items := input_items s1
                          @ [user_message [input_image (data_url (b64encode w shot))]]\<rparr>
           in case image_evaluator w i (input_items s2) of
                None \<Rightarrow> Break () (s2, l1)
              | Some verdict \<Rightarrow>
                  (let s3 = emit [EvaluatorRun verdict] s2;
                       l2 = l1\<lparr>result := Some verdict\<rparr>
                   in if score verdict = ''pass'' then
                        (let log_file = sites_dir @ ''/log.txt'';
                             line = log_line (ImageChange.change_description change)
                         in Break () (emit [LogAppend log_file line]
                                        (s3\<lparr>fs := append_file (fs s3) log_file line\<rparr>), l2))
                      else Continue (s3\<lparr>input_items := input_items s3
                                        @ [user_text (''Feedback: '' @ feedback verdict)]\<rparr>, l2))))"

text \<open>
  One pass of the \<^verbatim>\<open>while True\<close> loop. Every exception inside it is caught and leaves the
  loop, as a status code other than 200 of the download does.
\<close>

definition image_iteration ::
  "world \<Rightarrow> string \<Rightarrow> string \<Rightarrow> ImageChange \<Rightarrow> nat \<Rightarrow> state \<times> image_locals
     \<Rightarrow> (state \<times> image_locals, unit) step" where
  "image_iteration w sites_dir prompt change i sl =
     (case sl of (s, l) \<Rightarrow>
        (let original = image_url change;
             s1 = emit [HttpGet original] s
         in case requests_get w i original of
              None \<Rightarrow> Break () (s1, l)
            | Some (status_code, content) \<Rightarrow>
                if status_code \<noteq> 200 then Break () (s1, l)
                else
                  (case to_png w content of
                     None \<Rightarrow> Break () (s1, l)
                   | Some png \<Rightarrow>
                       (let s2 = emit [ImagesEdit] s1
                        in case images_edit w i png prompt change of
                             None \<Rightarrow> Break () (s2, l)
                           | Some image_bytes \<Rightarrow>
                               (let filename = path_join sites_dir (uuid4 w i @ ''.png'');
                                    s3 = emit [FileWrite filename, Upload filename]
                                           (s2\<lparr>fs := (fs s2)(filename \<mapsto> image_bytes)\<rparr>)
                                in case upload_to_github w i (fs s3) filename (github_repo w) of
                                     Inl e \<Rightarrow> Break () (s3, l)
                                   | Inr uploaded \<Rightarrow>
                                       (let code = replace_image_script original (py_str uploaded);
                                            l1 = l\<lparr>image_locals.new_image_url := uploaded,
                                                   image_locals.js_code := Some code\<rparr>
                                        in case run_replace_image w original (py_str uploaded) (page s3) of
                                             None \<Rightarrow> Break () (s3, l1)
                                           | Some pg \<Rightarrow>
                                               observe_and_evaluate w sites_dir change i
                                                 (emit [PageEvaluate code] (s3\<lparr>page := pg\<rparr>), l1)))))))"

definition process_image_optimization ::
  "nat \<Rightarrow> world \<Rightarrow> (string \<rightharpoonup> string) \<Rightarrow> string \<Rightarrow> string \<Rightarrow> (image_result option, state) outcome" where
  "process_image_optimization fuel w files url image_generation_prompt =
     (let s0 = \<lparr>page = open_page w url, fs = files, input_items = [], trace = []\<rparr>;
          image_list = image_inventory (urljoin w) (requests_head w) url (imgs (page s0))
      in if length image_list = 0 then Returned None (emit [BrowserClose] s0)
         else
           (let base64 = b64encode w (page_screenshot w True (page s0));
                s1 = emit [FullPageScreenshot, SpecialistRun] s0
            in case image_specialist w (specialist_request base64 image_list) of
                 None \<Rightarrow> Raised AgentError s1
               | Some None \<Rightarrow> Returned None (emit [BrowserClose] s1)
               | Some (Some change) \<Rightarrow>
                   (let site_name = py_replace (urlparse_netloc w url) ''www.'' [];
                        sites_dir = path_join (path_join ''sites'' site_name) ''img'';
                        s2 = s1\<lparr>input_items :=
                               [user_message [input_text
                                  (evaluation_request (ImageChange.change_description change))]]\<rparr>;
                        l0 = \<lparr>image_locals.new_image_url = None, screenshot_base64 = base64,
                              image_locals.js_code = None, result = None\<rparr>
                    in case while_true fuel
                              (image_iteration w sites_dir image_generation_prompt change) 0 (s2, l0) of
                         Unfinished (s', l) \<Rightarrow> Unfinished s'
                       | Raised e (s', l) \<Rightarrow> Raised e s'
                       | Returned u (s', l) \<Rightarrow>
                           Returned
                             (Some \<lparr>image_specialist_response = ImageChange.change_description change,
                                    original_image_url = image_url change,
                                    new_image_url = image_locals.new_image_url l,
                                    screenshot = screenshot_base64 l,
                                    js_code = image_locals.js_code l,
                                    evaluator_response = map_option feedback (result l)\<rparr>)
                             (emit [BrowserClose] s'))))"

section \<open>Observing a run\<close>

text \<open>The state a run has reached, however it ended or however far it was followed.\<close>

definition final_state :: "('r, 'a) outcome \<Rightarrow> 'a" where
  "final_state out = (case out of Returned r s \<Rightarrow> s | Raised e s \<Rightarrow> s | Unfinished s \<Rightarrow> s)"

text \<open>The viewport heights at the captures of \<^verbatim>\<open>take_viewport_screenshot\<close>, in order.\<close>

fun screenshot_heights :: "event list \<Rightarrow> nat list" where
  "screenshot_heights [] = []"
| "screenshot_heights (ViewportScreenshot h # es) = h # screenshot_heights es"
| "screenshot_heights (e # es) = screenshot_heights es"

text \<open>The heights that \<^verbatim>\<open>page.set_viewport_size\<close> has set, in order.\<close>

fun resizes :: "event list \<Rightarrow> nat list" where
  "resizes [] = []"
| "resizes (SetViewportSize wd h # es) = h # resizes es"
| "resizes (e # es) = resizes es"

text \<open>The URLs of the downloads, in order: every pass of the image loop begins with one.\<close>

fun downloads :: "event list \<Rightarrow> string list" where
  "downloads [] = []"
| "downloads (HttpGet u # es) = u # downloads es"
| "downloads (e # es) = downloads es"

text \<open>Each height is \<^verbatim>\<open>int(1.1 * previous height)\<close>, starting after \<open>h\<close>.\<close>

fun scaled_from :: "nat \<Rightarrow> nat list \<Rightarrow> bool" where
  "scaled_from h [] = True"
| "scaled_from h (h' # hs) = (int_times_1_1 h = Some h' \<and> scaled_from h' hs)"

text \<open>The verdicts of the evaluator, and the appends to a log (path and text), in order.\<close>

fun verdicts :: "event list \<Rightarrow> Evaluation list" where
  "verdicts [] = []"
| "verdicts (EvaluatorRun v # es) = v # verdicts es"
| "verdicts (e # es) = verdicts es"

fun log_appends :: "event list \<Rightarrow> (string \<times> string) list" where
  "log_appends [] = []"
| "log_appends (LogAppend path line # es) = (path, line) # log_appends es"
| "log_appends (e # es) = log_appends es"

text \<open>A verdict with another score than \<^verbatim>\<open>pass\<close>.\<close>

definition nonpass :: "Evaluation \<Rightarrow> bool" where
  "nonpass v = (score v \<noteq> ''pass'')"

text \<open>
  A check of a trace for the way changes are accepted: a pass of either loop begins with
  the coder's run or with the download, and a line is appended to a log only when the
  evaluator has given a verdict in the same pass, that verdict has the score \<^verbatim>\<open>pass\<close>,
  and nothing follows the append but the closing of the browser. The first argument is
  the verdict of the pass so far.
\<close>

fun accept_checked :: "Evaluation option \<Rightarrow> event list \<Rightarrow> bool" where
  "accept_checked v [] = True"
| "accept_checked v (CoderRun # es) = accept_checked None es"
| "accept_checked v (HttpGet u # es) = accept_checked None es"
| "accept_checked v (EvaluatorRun r # es) = accept_checked (Some r) es"
| "accept_checked v (LogAppend path line # es) =
     ((case v of None \<Rightarrow> False | Some r \<Rightarrow> score r = ''pass'')
      \<and> (es = [] \<or> es = [BrowserClose]))"
| "accept_checked v (e # es) = accept_checked v es"

text \<open>Reading a file as \<^verbatim>\<open>get_past_changes\<close> does: an absent file reads as empty.\<close>

definition read_file :: "(string \<rightharpoonup> string) \<Rightarrow> string \<Rightarrow> string" where
  "read_file files path = (case files path of None \<Rightarrow> [] | Some text \<Rightarrow> text)"

text \<open>The text that the appends of a trace add to one path.\<close>

definition appended :: "string \<Rightarrow> event list \<Rightarrow> string" where
  "appended path es = concat (map snd (filter (\<lambda>a. fst a = path) (log_appends es)))"

text \<open>
  Runs one after the other on the same files, as \<^verbatim>\<open>main\<close> starts one run for each press
  of a button: the files after the last run and the events of all runs in order.
\<close>

datatype job = text_job world | image_job world string

definition run_job :: "nat \<Rightarrow> string \<Rightarrow> job \<Rightarrow> (string \<rightharpoonup> string) \<Rightarrow> state" where
  "run_job fuel url j files =
     (case j of
        text_job w \<Rightarrow> final_state (process_text_optimization fuel w files url)
      | image_job w prompt \<Rightarrow> final_state (process_image_optimization fuel w files url prompt))"

fun run_jobs ::
  "nat \<Rightarrow> string \<Rightarrow> job list \<Rightarrow> (string \<rightharpoonup> string) \<Rightarrow> (string \<rightharpoonup> string) \<times> event list" where
  "run_jobs fuel url [] files = (files, [])"
| "run_jobs fuel url (j # js) files =
     (let s = run_job fuel url j files;
          rest = run_jobs fuel url js (fs s)
      in (fst rest, trace s @ snd rest))"

section \<open>Parts of the runs, named for the proofs\<close>

text \<open>The state when the page has been opened.\<close>

definition opened :: "world \<Rightarrow> (string \<rightharpoonup> string) \<Rightarrow> string \<Rightarrow> state" where
  "opened w files url = \<lparr>page = open_page w url, fs = files, input_items = [], trace = []\<rparr>"

text \<open>The state in which the loop of the text run starts.\<close>

definition text_loop_start :: "world \<Rightarrow> (string \<rightharpoonup> string) \<Rightarrow> string \<Rightarrow> state" where
  "text_loop_start w files url =
     \<lparr>page = (open_page w url)\<lparr>viewport_height := 968\<rparr>, fs = files,
      input_items =
        [user_text (coder_prompt (get_past_changes files (get_site_folder w url))
                      (text_elements w ((open_page w url)\<lparr>viewport_height := 880\<rparr>))),
         user_message [input_image (data_url (b64encode w
            (page_screenshot w False ((open_page w url)\<lparr>viewport_height := 968\<rparr>))))]],
      trace = [SetViewportSize 1920 880, SetViewportSize 1920 968, ViewportScreenshot 968]\<rparr>"

text \<open>The folder of the image run, the state and variables in which its loop starts, and
  the dictionary it returns.\<close>

definition image_sites_dir :: "world \<Rightarrow> string \<Rightarrow> string" where
  "image_sites_dir w url =
     path_join (path_join ''sites'' (py_replace (urlparse_netloc w url) ''www.'' [])) ''img''"

definition image_loop_start ::
  "world \<Rightarrow> (string \<rightharpoonup> string) \<Rightarrow> string \<Rightarrow> ImageChange \<Rightarrow> state \<times> image_locals" where
  "image_loop_start w files url change =
     (\<lparr>page = open_page w url, fs = files,
       input_items = [user_message [input_text
          (evaluation_request (ImageChange.change_description change))]],
       trace = [FullPageScreenshot, SpecialistRun]\<rparr>,
      \<lparr>image_locals.new_image_url = None,
       screenshot_base64 = b64encode w (page_screenshot w True (open_page w url)),
       image_locals.js_code = None, result = None\<rparr>)"

definition image_dict :: "ImageChange \<Rightarrow> image_locals \<Rightarrow> image_result" where
  "image_dict change l =
     \<lparr>image_specialist_response = ImageChange.change_description change,
      original_image_url = image_url change,
      new_image_url = image_locals.new_image_url l,
      screenshot = screenshot_base64 l,
      js_code = image_locals.js_code l,
      evaluator_response = map_option feedback (result l)\<rparr>"

text \<open>The request that the specialist receives.\<close>

definition specialist_input :: "world \<Rightarrow> string \<Rightarrow> item list" where
  "specialist_input w url =
     specialist_request (b64encode w (page_screenshot w True (open_page w url)))
       (image_inventory (urljoin w) (requests_head w) url (dom_images w url))"

text \<open>
  Invariants of the loops. The viewport follows the resizes: the heights set are 880, from
  the resize before the loop, followed by the heights of the captures, each of them is
  \<^verbatim>\<open>int(1.1 * height)\<close> of the one before, starting from the 800 of the opened page, and
  the page has the last of them. A trace with an accepted change is a checked one, also
  once the browser is closed.
\<close>

definition viewport_ok :: "state \<Rightarrow> bool" where
  "viewport_ok s =
     (resizes (trace s) = 880 # screenshot_heights (trace s)
      \<and> scaled_from 800 (resizes (trace s))
      \<and> viewport_height (page s) = last (resizes (trace s)))"


text \<open>Every file with a name ending in \<^verbatim>\<open>.txt\<close> holds what it held when the run began,
  followed by what the run has appended to it.\<close>

definition log_follows :: "(string \<rightharpoonup> string) \<Rightarrow> state \<Rightarrow> bool" where
  "log_follows files s =
     (\<forall>q. endswith q ''.txt'' \<longrightarrow> read_file (fs s) q = read_file files q @ appended q (trace s))"

definition accepted_or_not :: "event list \<Rightarrow> bool" where
  "accepted_or_not t = (accept_checked None t \<and> accept_checked None (t @ [BrowserClose]))"

section \<open>Example inputs\<close>

text \<open>
  A shop page with three images, of 500 by 500, 200 by 200 and 1000 by 800 pixels, and
  surroundings in which every request succeeds; the evaluator of the text run fails the
  first two proposals and passes the third.
\<close>

definition shop_url :: string where
  "shop_url = ''https://www.shop.example.com''"

definition shop_images :: "img_element list" where
  "shop_images =
     [\<lparr>src_attr = Some ''https://www.shop.example.com/a.png'', alt_attr = None,
       naturalWidth = 500, naturalHeight = 500\<rparr>,
      \<lparr>src_attr = Some ''https://www.shop.example.com/b.png'', alt_attr = None,
       naturalWidth = 200, naturalHeight = 200\<rparr>,
      \<lparr>src_attr = Some ''https://www.shop.example.com/c.png'', alt_attr = Some ''hero'',
       naturalWidth = 1000, naturalHeight = 800\<rparr>]"

definition shop_change :: ImageChange where
  "shop_change = \<lparr>image_url = ''https://www.shop.example.com/c.png'',
                   change_description = ''warmer colours''\<rparr>"

definition shop_proposal :: "nat \<Rightarrow> coder_result" where
  "shop_proposal i =
     \<lparr>final_output = \<lparr>JSOutput.script = ''s'' @ replicate i (CHR ''+''),
                       JSOutput.change_description = ''d'' @ replicate i (CHR ''+'')\<rparr>,
      new_items = [agent_item ''proposal'']\<rparr>"

definition shop_coder :: "nat \<Rightarrow> item list \<Rightarrow> coder_result option" where
  "shop_coder i items = Some (shop_proposal i)"

definition shop_verdict :: "nat \<Rightarrow> Evaluation" where
  "shop_verdict i =
     \<lparr>feedback = ''f'' @ replicate i (CHR ''+''),
      score = (if i < 2 then ''fail'' else ''pass'')\<rparr>"

definition shop_evaluator :: "nat \<Rightarrow> item list \<Rightarrow> Evaluation option" where
  "shop_evaluator i items = Some (shop_verdict i)"

definition shop_world :: world where
  "shop_world =
     \<lparr>urlparse_netloc = (\<lambda>u. ''www.shop.example.com''),
      urljoin = (\<lambda>base u. u),
      b64encode = (\<lambda>bytes. bytes),
      dom_images = (\<lambda>u. shop_images),
      page_screenshot = (\<lambda>full_page pg. ''shot''),
      text_elements = (\<lambda>pg. ''[]''),
      script_throws = (\<lambda>pg code. False),
      coder = shop_coder,
      evaluator = shop_evaluator,
      requests_head = (\<lambda>u. Some 200),
      image_specialist = (\<lambda>items. Some (Some shop_change)),
      requests_get = (\<lambda>i u. Some (200, ''jpeg'')),
      to_png = (\<lambda>bytes. Some ''png''),
      images_edit = (\<lambda>i png prompt change. Some ''new''),
      uuid4 = (\<lambda>i. ''id''),
      github_repo = Some ''owner/repo'',
      github_token = Some ''token'',
      github_get = (\<lambda>i u. Some (404, None)),
      github_put = (\<lambda>i u content sha. Some 201),
      URL_href = (\<lambda>u base. Some u),
      wait_for_image = (\<lambda>i pg. True),
      image_evaluator = (\<lambda>i items. Some \<lparr>feedback = ''fine'', score = ''pass''\<rparr>)\<rparr>"

text \<open>The same surroundings with a page without images.\<close>

definition no_images_world :: world where
  "no_images_world = shop_world\<lparr>dom_images := (\<lambda>u. [])\<rparr>"

text \<open>The same surroundings without \<^verbatim>\<open>GITHUB_TOKEN\<close>, and with the wait for the
  uploaded image timing out, as it does when no image of the page comes from the
  content host.\<close>

definition no_token_world :: world where
  "no_token_world = shop_world\<lparr>github_token := None, wait_for_image := (\<lambda>i pg. False)\<rparr>"

text \<open>The same surroundings with the image's download answering 404.\<close>

definition not_found_world :: world where
  "not_found_world = shop_world\<lparr>requests_get := (\<lambda>i u. Some (404, []))\<rparr>"

text \<open>No files yet.\<close>

definition no_files :: "string \<rightharpoonup> string" where
  "no_files = Map.empty"


text \<open>
  The same surroundings with an evaluator of texts that passes at once, and a page on
  which a script throws when it is evaluated a second time.
\<close>

definition rerun_world :: world where
  "rerun_world =
     shop_world\<lparr>script_throws := (\<lambda>pg code. coder_script code \<in> set (evaluated pg)),
                evaluator := (\<lambda>i items. Some \<lparr>feedback = ''good'', score = ''pass''\<rparr>)\<rparr>"

text \<open>The state that a pass of a loop leaves.\<close>

definition step_state :: "('a, 'r) step \<Rightarrow> 'a" where
  "step_state x = (case x of Continue s \<Rightarrow> s | Break r s \<Rightarrow> s | Raise e s \<Rightarrow> s)"


text \<open>The first pass of the image loop on the shop page.\<close>

definition shop_first_pass :: "state \<times> image_locals" where
  "shop_first_pass =
     step_state (image_iteration shop_world (image_sites_dir shop_world shop_url) ''prompt''
       shop_change 0 (image_loop_start shop_world no_files shop_url shop_change))"

text \<open>An image whose source ends in upper-case \<^verbatim>\<open>.SVG\<close>.\<close>

definition upper_svg_image :: img_element where
  "upper_svg_image =
     \<lparr>src_attr = Some ''https://www.shop.example.com/logo.SVG'', alt_attr = None,
      naturalWidth = 500, naturalHeight = 500\<rparr>"

section \<open>Properties of the image inventory\<close>

lemma collect_image_eligible:
  "collect_image uj head url img =
     (if eligible uj head url img then Some (entry_of uj url img) else None)"
  by (auto simp: collect_image_def eligible_def entry_of_def is_image_accessible_def Let_def
      split: option.splits)

lemma collect_images_eq:
  "collect_images uj head url images =
     map (entry_of uj url) (filter (eligible uj head url) images)"
  by (induction images)
    (simp_all add: collect_images_def List.map_filter_def collect_image_eligible)

lemma sorted_desc_sort_key:
  "sorted_wrt (\<lambda>a b. size b \<le> size a) (sort_key (\<lambda>x. - size x) (xs :: image_entry list))"
proof -
  have "sorted (map (\<lambda>x. - size x) (sort_key (\<lambda>x. - size x) xs))"
    by (rule sorted_sort_key)
  then show ?thesis
    by (simp add: sorted_map)
qed

lemma sorted_wrt_take_prefix:
  "sorted_wrt P xs \<Longrightarrow> sorted_wrt P (take n xs)"
  by (metis append_take_drop_id sorted_wrt_append)

lemma shop_inventory:
  "image_inventory (urljoin shop_world) (requests_head shop_world) shop_url shop_images =
     [\<lparr>src = ''https://www.shop.example.com/c.png'', alt = Some ''hero'',
       width = 1000, height = 800, size = 800000\<rparr>,
      \<lparr>src = ''https://www.shop.example.com/a.png'', alt = None,
       width = 500, height = 500, size = 250000\<rparr>]"
  by (simp add: image_inventory_def collect_images_eq eligible_def entry_of_def
      shop_world_def shop_images_def endswith_def lower_def lower_char_def)

text \<open>
  C1, as amended. The inventory is the first ten of the entries of the eligible elements
  in stable descending order of \<open>size\<close>, where an element is eligible when its \<^verbatim>\<open>src\<close>
  attribute is present and not empty, the attribute itself, lower-cased, does not end
  with \<^verbatim>\<open>.svg\<close>, the HEAD request to the absolute URL answers 200, and both natural
  dimensions exceed 300. So every entry of the inventory comes from an eligible element,
  every eligible element has its entry in the inventory when there are at most ten of
  them, the inventory has \<open>min 10 (number of eligible elements)\<close> entries, and it is in
  descending order of \<open>width * height\<close>.
\<close>

theorem image_inventory_contents:
  "image_inventory uj head url images =
     take 10 (sort_key (\<lambda>x. - size x)
       (map (entry_of uj url) (filter (eligible uj head url) images)))
   \<and> set (image_inventory uj head url images)
       \<subseteq> entry_of uj url ` set (filter (eligible uj head url) images)
   \<and> (length (filter (eligible uj head url) images) \<le> 10 \<longrightarrow>
        set (image_inventory uj head url images)
          = entry_of uj url ` set (filter (eligible uj head url) images))
   \<and> length (image_inventory uj head url images)
       = min 10 (length (filter (eligible uj head url) images))
   \<and> sorted_wrt (\<lambda>a b. size b \<le> size a) (image_inventory uj head url images)"
proof -
  let ?es = "map (entry_of uj url) (filter (eligible uj head url) images)"
  have inv: "image_inventory uj head url images = take 10 (sort_key (\<lambda>x. - size x) ?es)"
    by (simp add: image_inventory_def collect_images_eq)
  have sub: "set (take 10 (sort_key (\<lambda>x. - size x) ?es)) \<subseteq> set ?es"
    using set_take_subset[of 10 "sort_key (\<lambda>x. - size x) ?es"] by simp
  have all: "length (filter (eligible uj head url) images) \<le> 10 \<Longrightarrow>
      set (take 10 (sort_key (\<lambda>x. - size x) ?es)) = set ?es"
    by simp
  have len: "length (take 10 (sort_key (\<lambda>x. - size x) ?es))
      = min 10 (length (filter (eligible uj head url) images))"
    by simp
  have srt: "sorted_wrt (\<lambda>a b. size b \<le> size a) (take 10 (sort_key (\<lambda>x. - size x) ?es))"
    by (rule sorted_wrt_take_prefix) (rule sorted_desc_sort_key)
  show ?thesis
    using sub all len srt unfolding inv by simp
qed

theorem image_inventory_contents_witness:
  "length (filter (eligible (urljoin shop_world) (requests_head shop_world) shop_url)
      shop_images) \<le> 10
   \<and> set (image_inventory (urljoin shop_world) (requests_head shop_world) shop_url shop_images)
       = entry_of (urljoin shop_world) shop_url
           ` set (filter (eligible (urljoin shop_world) (requests_head shop_world) shop_url)
               shop_images)"
proof -
  have "length (filter (eligible (urljoin shop_world) (requests_head shop_world) shop_url)
      shop_images) \<le> length shop_images"
    by (rule length_filter_le)
  also have "\<dots> \<le> 10" by (simp add: shop_images_def)
  finally have few: "length (filter (eligible (urljoin shop_world) (requests_head shop_world)
      shop_url) shop_images) \<le> 10" .
  from image_inventory_contents
         [of "urljoin shop_world" "requests_head shop_world" shop_url shop_images] few
  show ?thesis by blast
qed

lemma lower_upper_svg:
  "lower ''https://www.shop.example.com/logo.SVG'' = ''https://www.shop.example.com/logo.svg''"
  by code_simp

text \<open>
  C1 as stated fails: an image of 500 by 500 pixels whose absolute source ends in
  \<^verbatim>\<open>.SVG\<close>, not in \<^verbatim>\<open>.svg\<close>, and answers 200 is not in the inventory.
\<close>

theorem image_inventory_counterexample:
  "300 < naturalWidth upper_svg_image \<and> 300 < naturalHeight upper_svg_image
   \<and> \<not> endswith (urljoin shop_world shop_url ''https://www.shop.example.com/logo.SVG'') ''.svg''
   \<and> requests_head shop_world
        (urljoin shop_world shop_url ''https://www.shop.example.com/logo.SVG'') = Some 200
   \<and> src_attr upper_svg_image = Some ''https://www.shop.example.com/logo.SVG''
   \<and> image_inventory (urljoin shop_world) (requests_head shop_world) shop_url
        [upper_svg_image] = []"
  by (simp add: image_inventory_def collect_images_eq eligible_def upper_svg_image_def
      shop_world_def lower_upper_svg) (simp add: endswith_def)

section \<open>Properties of the URL normalisation\<close>

lemma startswith_after_www:
  "\<not> contains (p @ ''www'') ''www.'' \<Longrightarrow> p \<noteq> [] \<Longrightarrow> \<not> startswith (p @ ''www.'' @ r) ''www.''"
  apply (cases p; simp add: startswith_def)
  subgoal for a p1
    apply (cases p1; simp)
    subgoal for b p2
      apply (cases p2; simp)
      subgoal for c p3
        apply (cases p3; simp)
        done
      done
    done
  done

lemma js_replace_first:
  "\<not> contains (p @ ''www'') ''www.'' \<Longrightarrow> js_replace (p @ ''www.'' @ r) ''www.'' [] = p @ r"
proof (induction p)
  case Nil
  then show ?case by (simp add: startswith_def)
next
  case (Cons a p)
  have "\<not> startswith ((a # p) @ ''www.'' @ r) ''www.''"
    using Cons.prems startswith_after_www by blast
  moreover have "\<not> contains (p @ ''www'') ''www.''"
    using Cons.prems by simp
  ultimately show ?case using Cons.IH by simp
qed

lemma js_replace_absent:
  "\<not> contains u p \<Longrightarrow> js_replace u p n = u"
  by (induction u) auto

text \<open>
  C6, as amended. The normalisation removes the first occurrence of the text \<^verbatim>\<open>www.\<close>,
  wherever in the URL it stands, and nothing else. So a URL in which \<^verbatim>\<open>www.\<close> does not
  occur is unchanged; a URL whose first \<^verbatim>\<open>www.\<close> stands after \<open>p\<close> loses exactly that
  occurrence; and two URLs that differ only in that \<^verbatim>\<open>www.\<close> have equal normal forms
  when the shorter one holds no \<^verbatim>\<open>www.\<close> at all.
\<close>

theorem normalize_url_first_occurrence:
  "(\<not> contains u ''www.'' \<longrightarrow> normalize_url u = u)
   \<and> (\<not> contains (p @ ''www'') ''www.'' \<longrightarrow> normalize_url (p @ ''www.'' @ r) = p @ r)
   \<and> (\<not> contains (p @ ''www'') ''www.'' \<and> \<not> contains (p @ r) ''www.'' \<longrightarrow>
        normalize_url (p @ ''www.'' @ r) = normalize_url (p @ r))"
proof -
  have a: "\<not> contains u ''www.'' \<Longrightarrow> js_replace u ''www.'' [] = u"
    by (rule js_replace_absent)
  have b: "\<not> contains (p @ ''www'') ''www.'' \<Longrightarrow> js_replace (p @ ''www.'' @ r) ''www.'' [] = p @ r"
    by (rule js_replace_first)
  have c: "\<not> contains (p @ r) ''www.'' \<Longrightarrow> js_replace (p @ r) ''www.'' [] = p @ r"
    by (rule js_replace_absent)
  show ?thesis
    unfolding normalize_url_def using a b c by metis
qed

theorem normalize_url_first_occurrence_witness:
  "\<not> contains ''http://a.com/x.png'' ''www.''
   \<and> \<not> contains (''http://'' @ ''www'') ''www.''
   \<and> \<not> contains (''http://'' @ ''a.com/x.png'') ''www.''
   \<and> normalize_url ''http://a.com/x.png'' = ''http://a.com/x.png''
   \<and> normalize_url (''http://'' @ ''www.'' @ ''a.com/x.png'') = ''http://'' @ ''a.com/x.png''
   \<and> normalize_url (''http://'' @ ''www.'' @ ''a.com/x.png'')
       = normalize_url (''http://'' @ ''a.com/x.png'')"
proof -
  have a: "\<not> contains ''http://a.com/x.png'' ''www.''"
    by (simp add: startswith_def)
  have b: "\<not> contains (''http://'' @ ''www'') ''www.''"
    by (simp add: startswith_def)
  have c: "\<not> contains (''http://'' @ ''a.com/x.png'') ''www.''"
    by (simp add: startswith_def)
  from normalize_url_first_occurrence [of "''http://a.com/x.png''" "''http://''" "''a.com/x.png''"]
    a b c
  show ?thesis by blast
qed

text \<open>
  C6 as stated fails: the host \<^verbatim>\<open>a.com\<close> has no leading \<^verbatim>\<open>www.\<close>, yet the URL is changed,
  in its path; and the two URLs that differ only in the leading \<^verbatim>\<open>www.\<close> of the host have
  different normal forms.
\<close>

theorem normalize_url_counterexample:
  "\<not> startswith ''a.com'' ''www.''
   \<and> normalize_url ''http://a.com/www.png'' = ''http://a.com/png''
   \<and> normalize_url ''http://a.com/www.png'' \<noteq> ''http://a.com/www.png''
   \<and> normalize_url ''http://www.a.com/www.png'' \<noteq> normalize_url ''http://a.com/www.png''"
  by (simp add: normalize_url_def startswith_def)

section \<open>Properties of the viewport arithmetic\<close>

lemma bit_length_0: "bit_length 0 = 0"
  by (simp add: bit_length.simps)

lemma bit_length_bounds: "0 < n \<Longrightarrow> 2 ^ (bit_length n - 1) \<le> n \<and> n < 2 ^ bit_length n"
proof (induction n rule: bit_length.induct)
  case (1 n)
  show ?case
  proof (cases "n div 2 = 0")
    case True
    with 1 have "n = 1" by (simp add: div_eq_0_iff) 
    then show ?thesis by (simp add: bit_length.simps[of "Suc 0"] bit_length_0)
  next
    case False
    with 1 have IH: "2 ^ (bit_length (n div 2) - 1) \<le> n div 2 \<and> n div 2 < 2 ^ bit_length (n div 2)"
      by simp
    have bl: "bit_length n = Suc (bit_length (n div 2))"
      using 1(2) by (simp add: bit_length.simps[of n])
    have pos: "bit_length (n div 2) > 0" using False by (simp add: bit_length.simps[of "n div 2"])
    then obtain j where j: "bit_length (n div 2) = Suc j" by (cases "bit_length (n div 2)") auto
    from IH j have "2 ^ j \<le> n div 2" "n div 2 < 2 * 2 ^ j" by simp_all
    then have "2 * 2 ^ j \<le> n" "n < 2 * (2 * 2 ^ j)" by linarith+
    then show ?thesis by (simp add: bl j)
  qed
qed

lemma bit_length_le: "n < 2 ^ m \<Longrightarrow> bit_length n \<le> m"
proof (cases "n = 0")
  case True
  then show ?thesis by (simp add: bit_length_0)
next
  case False
  assume "n < 2 ^ m"
  from False have "(2::nat) ^ (bit_length n - 1) \<le> n" using bit_length_bounds by simp
  with \<open>n < 2 ^ m\<close> have "(2::nat) ^ (bit_length n - 1) < 2 ^ m" by linarith
  then have "bit_length n - 1 < m" by (simp add: power_strict_increasing_iff)
  then show ?thesis by linarith
qed

lemma round53_small: "p < 2 ^ 53 \<Longrightarrow> round53 p = p"
proof -
  assume "p < 2 ^ 53"
  then have "bit_length p - 53 = 0" using bit_length_le[of p 53] by simp
  then show ?thesis by (simp add: round53_def)
qed

text \<open>Rounding moves a number by less than one unit of its last kept bit.\<close>

lemma round53_floor: "(p div 2 ^ (bit_length p - 53)) * 2 ^ (bit_length p - 53) \<le> round53 p"
  by (simp add: round53_def Let_def)

lemma round53_ceil: "round53 p \<le> (p div 2 ^ (bit_length p - 53)) * 2 ^ (bit_length p - 53) + 2 ^ (bit_length p - 53)"
  by (simp add: round53_def Let_def)

lemma pow_k_le: "2 ^ (bit_length p - 53) * 2 ^ 52 \<le> max p (2 ^ 52)"
proof (cases "bit_length p \<le> 53")
  case True
  then show ?thesis by simp
next
  case False
  then have pos: "0 < p" by (cases "p = 0") (simp_all add: bit_length_0)
  have "(2::nat) ^ (bit_length p - 53) * 2 ^ 52 = 2 ^ (bit_length p - 53 + 52)"
    by (simp add: power_add)
  also have "bit_length p - 53 + 52 = bit_length p - 1" using False by simp
  also have "(2::nat) ^ (bit_length p - 1) \<le> p" using bit_length_bounds[OF pos] by simp
  finally show ?thesis by simp
qed

lemma round53_lower: "p * 2 ^ 52 \<le> round53 p * 2 ^ 52 + p"
proof (cases "bit_length p \<le> 53")
  case True
  then have "bit_length p - 53 = 0" by simp
  then have "round53 p = p" by (simp add: round53_def)
  then show ?thesis by simp
next
  case False
  define k where "k = bit_length p - 53"
  have pos: "0 < p" using False by (cases "p = 0") (simp_all add: bit_length_0)
  have kp: "2 ^ k * 2 ^ 52 \<le> p"
  proof -
    have "(2::nat) ^ k * 2 ^ 52 = 2 ^ (k + 52)" by (simp add: power_add)
    also have "k + 52 = bit_length p - 1" using False by (simp add: k_def)
    also have "(2::nat) ^ (bit_length p - 1) \<le> p" using bit_length_bounds[OF pos] by simp
    finally show ?thesis .
  qed
  have fl: "(p div 2 ^ k) * 2 ^ k \<le> round53 p" using round53_floor[of p] by (simp add: k_def)
  have "p = (p div 2 ^ k) * 2 ^ k + p mod 2 ^ k" by (simp only: div_mult_mod_eq)
  moreover have "p mod 2 ^ k < 2 ^ k" by simp
  ultimately have "p < round53 p + 2 ^ k" using fl by linarith
  then have "p * 2 ^ 52 < (round53 p + 2 ^ k) * 2 ^ 52" by simp
  also have "\<dots> = round53 p * 2 ^ 52 + 2 ^ k * 2 ^ 52" by (simp add: algebra_simps)
  also have "\<dots> \<le> round53 p * 2 ^ 52 + p" using kp by simp
  finally show ?thesis by simp
qed

lemma float_of_int_small: "h < 2 ^ 53 \<Longrightarrow> float_of_int h = Some h"
proof -
  assume h: "h < 2 ^ 53"
  have "(2::nat) ^ 53 \<le> 2 ^ 1024" by (rule power_increasing) simp_all
  with h have "\<not> 2 ^ 1024 \<le> h" by linarith
  with h show ?thesis by (simp add: float_of_int_def round53_small)
qed

lemma int_times_1_1_small:
  assumes h: "h < 2 ^ 47"
  shows "int_times_1_1 h = Some (11 * h div 10)"
proof -
  define p where "p = h * 2476979795053773"
  define k where "k = bit_length p - 53"
  define N where "N = 11 * h div 10"
  define X :: nat where "X = 2 ^ k"
  have h': "h < 140737488355328" using h by simp
  have p99: "p < 2 ^ 99" using h' by (simp add: p_def)
  have "bit_length p \<le> 99" using p99 by (rule bit_length_le)
  then have k51: "k \<le> 46" by (simp add: k_def)
  have "X * 2 ^ 52 \<le> max p (2 ^ 52)" unfolding X_def k_def by (rule pow_k_le)
  with p99 have "X * 2 ^ 52 \<le> 2 ^ 99" by simp
  then have "X * 2 ^ 52 \<le> 2 ^ 47 * 2 ^ 52" by simp
  then have X47: "X \<le> 2 ^ 47" by (simp only: mult_le_cancel2) simp
  have N1: "10 * N \<le> 11 * h" by (simp add: N_def)
  have N2: "11 * h < 10 * N + 10" unfolding N_def by linarith
  have lowp: "N * 2 ^ 51 \<le> p" using N1 by (simp add: p_def)
  define Y :: nat where "Y = 2 ^ (51 - k)"
  have split: "(2::nat) ^ 51 = Y * X"
    using k51 by (simp add: X_def Y_def power_add[symmetric])
  have Xpos: "0 < X" by (simp add: X_def)
  have "N * Y * X \<le> p" using lowp by (simp only: split mult.assoc)
  then have "N * Y \<le> p div X"
    using Xpos by (simp only: less_eq_div_iff_mult_less_eq)
  then have "N * Y * X \<le> (p div X) * X" by (simp only: mult_le_mono1)
  then have "N * 2 ^ 51 \<le> (p div X) * X" by (simp only: split mult.assoc)
  also have "\<dots> \<le> round53 p" unfolding X_def k_def by (rule round53_floor)
  finally have low: "N * 2 ^ 51 \<le> round53 p" .
  have "round53 p \<le> (p div X) * X + X" unfolding X_def k_def by (rule round53_ceil)
  also have "(p div X) * X \<le> p" by simp
  finally have up1: "round53 p \<le> p + X" by simp
  have "p + X < (N + 1) * 2 ^ 51"
    using N2 X47 h' by (simp add: p_def)
  with up1 have up: "round53 p < (N + 1) * 2 ^ 51" by linarith
  have dv: "round53 p div 2 ^ 51 = N"
    using low up by (simp add: div_nat_eqI mult.commute)
  have "(N + 1) * 2 ^ 51 \<le> 2 ^ 1075"
  proof -
    have "N + 1 \<le> 2 ^ 51" using N1 h' by simp
    then have "(N + 1) * 2 ^ 51 \<le> 2 ^ 51 * 2 ^ 51" by (simp only: mult_le_mono1)
    also have "\<dots> = (2::nat) ^ 102" by (simp add: power_add[symmetric])
    also have "\<dots> \<le> 2 ^ 1075" by (rule power_increasing) simp_all
    finally show ?thesis .
  qed
  with up have fin: "\<not> 2 ^ 1075 \<le> round53 p" by linarith
  have "h < 2 ^ 53" using h' by simp
  then have "float_of_int h = Some h" by (rule float_of_int_small)
  then show ?thesis
    using dv fin by (simp add: int_times_1_1_def Let_def p_def N_def)
qed

lemma int_times_1_1_grows_large:
  assumes h: "11 \<le> h" and r: "int_times_1_1 h = Some h'"
  shows "h < h'"
proof -
  define f where "f = round53 h"
  define m where "m = round53 (f * 2476979795053773)"
  have h'_def: "h' = m div 2 ^ 51"
    using r by (auto simp: int_times_1_1_def float_of_int_def Let_def f_def m_def
        split: option.splits if_splits)
  have r1: "h * 2 ^ 52 \<le> f * 2 ^ 52 + h" unfolding f_def by (rule round53_lower)
  have r2: "(f * 2476979795053773) * 2 ^ 52 \<le> m * 2 ^ 52 + f * 2476979795053773"
    unfolding m_def by (rule round53_lower)
  have "(h + 1) * 2 ^ 51 \<le> m"
  proof (rule ccontr)
    assume "\<not> (h + 1) * 2 ^ 51 \<le> m"
    then have r3: "m < (h + 1) * 2251799813685248" by simp
    from r1 have e1: "h * 4503599627370495 \<le> f * 4503599627370496" by simp
    from r2 have e2: "f * 11155325282008417156911118627635 \<le> m * 4503599627370496" by simp
    from e1 have "h * 4503599627370495 * 11155325282008417156911118627635 \<le> f * 4503599627370496 * 11155325282008417156911118627635"
      by (simp only: mult_le_mono1)
    also have "\<dots> = (f * 11155325282008417156911118627635) * 4503599627370496" by simp
    also have "\<dots> \<le> (m * 4503599627370496) * 4503599627370496" using e2 by (simp only: mult_le_mono1)
    finally have "h * 4503599627370495 * 11155325282008417156911118627635 \<le> m * 4503599627370496 * 4503599627370496" .
    with r3 h show False by simp
  qed
  then have "h + 1 \<le> m div 2 ^ 51"
    by (simp add: less_eq_div_iff_mult_less_eq)
  then show ?thesis by (simp add: h'_def)
qed

lemma int_times_1_1_grows:
  assumes h: "10 \<le> h" and r: "int_times_1_1 h = Some h'"
  shows "h < h'"
proof (cases "h = 10")
  case True
  then have "int_times_1_1 h = Some 11" by (simp add: int_times_1_1_small)
  with r True show ?thesis by simp
next
  case False
  with h have "11 \<le> h" by simp
  then show ?thesis using r by (rule int_times_1_1_grows_large)
qed

lemma int_times_1_1_800: "int_times_1_1 800 = Some 880"
  by (simp add: int_times_1_1_small)

lemma int_times_1_1_880: "int_times_1_1 880 = Some 968"
  by (simp add: int_times_1_1_small)

section \<open>Rules for the loops and the runs\<close>

lemma while_true_rule:
  assumes "I s"
    and "\<And>i s. I s \<Longrightarrow>
           (case body i s of Continue s' \<Rightarrow> I s' | Break r s' \<Rightarrow> Q r s' | Raise e s' \<Rightarrow> R e s')"
  shows "case while_true fuel body i s of
           Unfinished s' \<Rightarrow> I s' | Returned r s' \<Rightarrow> Q r s' | Raised e s' \<Rightarrow> R e s'"
  using assms(1)
proof (induction fuel arbitrary: i s)
  case 0
  then show ?case by simp
next
  case (Suc fuel)
  from assms(2)[OF Suc.prems, of i] show ?case
    by (cases "body i s") (simp_all add: Suc.IH)
qed

lemma text_setup_eq: "text_setup w files url = Inr (text_loop_start w files url)"
  by (simp add: text_setup_def text_loop_start_def Let_def open_page_def
      take_viewport_screenshot_def emit_def int_times_1_1_800 int_times_1_1_880)

lemma process_text_loop:
  "process_text_optimization fuel w files url =
     (case while_true fuel (text_iteration w (get_site_folder w url)) 0
             (text_loop_start w files url) of
        Returned r s' \<Rightarrow> Returned r (emit [BrowserClose] s')
      | Raised e s' \<Rightarrow> Raised e s'
      | Unfinished s' \<Rightarrow> Unfinished s')"
  by (simp add: process_text_optimization_def text_setup_eq)

lemma text_run_rule:
  assumes "I (text_loop_start w files url)"
    and "\<And>i s. I s \<Longrightarrow>
           (case text_iteration w (get_site_folder w url) i s of
              Continue s' \<Rightarrow> I s' | Break r s' \<Rightarrow> Q r s' | Raise e s' \<Rightarrow> R e s')"
  shows "case process_text_optimization fuel w files url of
           Unfinished s \<Rightarrow> I s
         | Returned r s \<Rightarrow> (\<exists>s'. s = emit [BrowserClose] s' \<and> Q r s')
         | Raised e s \<Rightarrow> R e s"
proof -
  have "case while_true fuel (text_iteration w (get_site_folder w url)) 0
               (text_loop_start w files url) of
          Unfinished s' \<Rightarrow> I s' | Returned r s' \<Rightarrow> Q r s' | Raised e s' \<Rightarrow> R e s'"
    using assms by (rule while_true_rule)
  then show ?thesis
    by (auto simp: process_text_loop split: outcome.splits)
qed

lemma process_image_empty:
  "image_inventory (urljoin w) (requests_head w) url (dom_images w url) = [] \<Longrightarrow>
   process_image_optimization fuel w files url prompt =
     Returned None (emit [BrowserClose] (opened w files url))"
  by (simp add: process_image_optimization_def opened_def open_page_def)

lemma process_image_raised:
  "image_inventory (urljoin w) (requests_head w) url (dom_images w url) \<noteq> [] \<Longrightarrow>
   image_specialist w (specialist_input w url) = None \<Longrightarrow>
   process_image_optimization fuel w files url prompt =
     Raised AgentError (emit [FullPageScreenshot, SpecialistRun] (opened w files url))"
  by (simp add: process_image_optimization_def opened_def open_page_def specialist_input_def
      Let_def)

lemma process_image_no_output:
  "image_inventory (urljoin w) (requests_head w) url (dom_images w url) \<noteq> [] \<Longrightarrow>
   image_specialist w (specialist_input w url) = Some None \<Longrightarrow>
   process_image_optimization fuel w files url prompt =
     Returned None
       (emit [BrowserClose] (emit [FullPageScreenshot, SpecialistRun] (opened w files url)))"
  by (simp add: process_image_optimization_def opened_def open_page_def specialist_input_def
      Let_def)

lemma process_image_loop:
  "image_inventory (urljoin w) (requests_head w) url (dom_images w url) \<noteq> [] \<Longrightarrow>
   image_specialist w (specialist_input w url) = Some (Some change) \<Longrightarrow>
   process_image_optimization fuel w files url prompt =
     (case while_true fuel (image_iteration w (image_sites_dir w url) prompt change) 0
             (image_loop_start w files url change) of
        Unfinished sl \<Rightarrow> Unfinished (fst sl)
      | Raised e sl \<Rightarrow> Raised e (fst sl)
      | Returned u sl \<Rightarrow>
          Returned (Some (image_dict change (snd sl))) (emit [BrowserClose] (fst sl)))"
  by (simp add: process_image_optimization_def opened_def open_page_def specialist_input_def
      Let_def image_sites_dir_def image_loop_start_def image_dict_def emit_def
      split: outcome.splits prod.splits)

lemma image_run_rule:
  assumes start: "\<And>change. I (image_loop_start w files url change)"
    and step: "\<And>change i sl. I sl \<Longrightarrow>
           (case image_iteration w (image_sites_dir w url) prompt change i sl of
              Continue sl' \<Rightarrow> I sl' | Break r sl' \<Rightarrow> Q change sl' | Raise e sl' \<Rightarrow> False)"
  shows "case process_image_optimization fuel w files url prompt of
           Unfinished s \<Rightarrow>
             image_inventory (urljoin w) (requests_head w) url (dom_images w url) \<noteq> []
             \<and> (\<exists>change l. image_specialist w (specialist_input w url) = Some (Some change)
                    \<and> I (s, l))
         | Returned None s \<Rightarrow>
             (image_inventory (urljoin w) (requests_head w) url (dom_images w url) = []
              \<and> s = emit [BrowserClose] (opened w files url))
             \<or> (image_inventory (urljoin w) (requests_head w) url (dom_images w url) \<noteq> []
                 \<and> image_specialist w (specialist_input w url) = Some None
                 \<and> s = emit [BrowserClose]
                          (emit [FullPageScreenshot, SpecialistRun] (opened w files url)))
         | Returned (Some r) s \<Rightarrow>
             image_inventory (urljoin w) (requests_head w) url (dom_images w url) \<noteq> []
             \<and> (\<exists>change s' l. image_specialist w (specialist_input w url) = Some (Some change)
                    \<and> s = emit [BrowserClose] s' \<and> r = image_dict change l \<and> Q change (s', l))
         | Raised e s \<Rightarrow>
             image_inventory (urljoin w) (requests_head w) url (dom_images w url) \<noteq> []
             \<and> image_specialist w (specialist_input w url) = None
             \<and> s = emit [FullPageScreenshot, SpecialistRun] (opened w files url)"
proof (cases "image_inventory (urljoin w) (requests_head w) url (dom_images w url) = []")
  case True
  then show ?thesis by (simp add: process_image_empty)
next
  case False
  show ?thesis
  proof (cases "image_specialist w (specialist_input w url)")
    case None
    with False show ?thesis by (simp add: process_image_raised)
  next
    case (Some out)
    show ?thesis
    proof (cases out)
      case None
      with False Some show ?thesis by (simp add: process_image_no_output)
    next
      case (Some change)
      have "case while_true fuel (image_iteration w (image_sites_dir w url) prompt change) 0
                   (image_loop_start w files url change) of
              Unfinished sl \<Rightarrow> I sl | Returned u sl \<Rightarrow> Q change sl | Raised e sl \<Rightarrow> False"
        using start step by (rule while_true_rule)
      with False \<open>image_specialist w (specialist_input w url) = Some out\<close> Some
      show ?thesis
        by (auto simp: process_image_loop split: outcome.splits)
    qed
  qed
qed

lemma while_true_indexed:
  assumes "I i s"
    and "\<And>i s. I i s \<Longrightarrow>
           (case body i s of Continue s' \<Rightarrow> I (Suc i) s' | Break r s' \<Rightarrow> Q r s' | Raise e s' \<Rightarrow> R e s')"
  shows "case while_true fuel body i s of
           Unfinished s' \<Rightarrow> I (i + fuel) s' | Returned r s' \<Rightarrow> Q r s' | Raised e s' \<Rightarrow> R e s'"
  using assms(1)
proof (induction fuel arbitrary: i s)
  case 0
  then show ?case by simp
next
  case (Suc fuel)
  show ?case
  proof (cases "body i s")
    case (Continue s')
    with assms(2)[OF Suc.prems] have "I (Suc i) s'" by simp
    from Suc.IH[OF this] Continue show ?thesis by (auto split: outcome.splits)
  next
    case (Break r s')
    with assms(2)[OF Suc.prems] show ?thesis by simp
  next
    case (Raise e s')
    with assms(2)[OF Suc.prems] show ?thesis by simp
  qed
qed

lemma text_run_indexed:
  assumes "I 0 (text_loop_start w files url)"
    and "\<And>i s. I i s \<Longrightarrow>
           (case text_iteration w (get_site_folder w url) i s of
              Continue s' \<Rightarrow> I (Suc i) s' | Break r s' \<Rightarrow> Q r s' | Raise e s' \<Rightarrow> R e s')"
  shows "case process_text_optimization fuel w files url of
           Unfinished s \<Rightarrow> I fuel s
         | Returned r s \<Rightarrow> (\<exists>s'. s = emit [BrowserClose] s' \<and> Q r s')
         | Raised e s \<Rightarrow> R e s"
proof -
  have "case while_true fuel (text_iteration w (get_site_folder w url)) 0
               (text_loop_start w files url) of
          Unfinished s' \<Rightarrow> I (0 + fuel) s' | Returned r s' \<Rightarrow> Q r s' | Raised e s' \<Rightarrow> R e s'"
    using assms by (rule while_true_indexed)
  then show ?thesis
    by (auto simp: process_text_loop split: outcome.splits)
qed


section \<open>The example page\<close>

lemma shop_site_name:
  "py_replace ''www.shop.example.com'' ''www.'' [] = ''shop.example.com''"
  by (simp add: py_replace.simps startswith_def)

lemma shop_sites_dir:
  "image_sites_dir shop_world shop_url = ''sites/shop.example.com/img''"
  by (simp add: image_sites_dir_def shop_world_def shop_site_name path_join_def
      startswith_def endswith_def)

lemma shop_site_folder: "get_site_folder shop_world shop_url = ''sites/shop.example.com''"
  by (simp add: get_site_folder_def shop_world_def shop_site_name)

lemma shop_specialist:
  "image_specialist shop_world (specialist_input shop_world shop_url) = Some (Some shop_change)"
  by (simp add: shop_world_def)

lemma shop_inventory_nonempty:
  "image_inventory (urljoin shop_world) (requests_head shop_world) shop_url
     (dom_images shop_world shop_url) \<noteq> []"
  using shop_inventory by (simp add: shop_world_def)

lemma shop_first_pass_break:
  "image_iteration shop_world (image_sites_dir shop_world shop_url) ''prompt'' shop_change 0
     (image_loop_start shop_world no_files shop_url shop_change) = Break () shop_first_pass"
  by (simp add: shop_first_pass_def step_state_def image_iteration_def
      observe_and_evaluate_def image_loop_start_def Let_def shop_world_def
      upload_to_github_def run_replace_image_def py_str_def shop_change_def open_page_def
      shop_images_def normalize_url_def startswith_def no_files_def emit_def)

lemma shop_first_pass_log:
  "log_appends (trace (fst shop_first_pass))
     = [(''sites/shop.example.com/img/log.txt'', ''- warmer colours'' @ newline)]"
  "fs (fst shop_first_pass) ''sites/shop.example.com/log.txt'' = None"
  "fs (fst shop_first_pass) ''sites/shop.example.com/img/log.txt''
     = Some (''- warmer colours'' @ newline)"
  unfolding shop_first_pass_def shop_sites_dir
  by (simp_all add: step_state_def image_iteration_def
      observe_and_evaluate_def image_loop_start_def Let_def shop_world_def
      upload_to_github_def run_replace_image_def py_str_def shop_change_def open_page_def
      shop_images_def normalize_url_def startswith_def endswith_def path_join_def
      no_files_def emit_def append_file_def log_line_def)

lemma shop_first_pass_verdicts:
  "verdicts (trace (fst shop_first_pass)) = [\<lparr>feedback = ''fine'', score = ''pass''\<rparr>]"
  unfolding shop_first_pass_def shop_sites_dir
  by (simp add: step_state_def image_iteration_def
      observe_and_evaluate_def image_loop_start_def Let_def shop_world_def
      upload_to_github_def run_replace_image_def py_str_def shop_change_def open_page_def
      shop_images_def normalize_url_def startswith_def endswith_def path_join_def
      no_files_def emit_def append_file_def log_line_def)

lemma shop_image_returned:
  "\<exists>r. process_image_optimization 1 shop_world no_files shop_url ''prompt''
         = Returned (Some r) (emit [BrowserClose] (fst shop_first_pass))
       \<and> image_specialist_response r = ''warmer colours''"
proof -
  have "process_image_optimization 1 shop_world no_files shop_url ''prompt''
      = Returned (Some (image_dict shop_change (snd shop_first_pass)))
          (emit [BrowserClose] (fst shop_first_pass))"
    by (simp add: process_image_loop[OF shop_inventory_nonempty shop_specialist]
        shop_first_pass_break)
  moreover have "image_specialist_response (image_dict shop_change (snd shop_first_pass))
      = ''warmer colours''"
    by (simp add: image_dict_def shop_change_def)
  ultimately show ?thesis by blast
qed

lemma shop_oracles:
  "coder shop_world i items = Some (shop_proposal i)"
  "evaluator shop_world i items = Some (shop_verdict i)"
  "\<not> script_throws shop_world pg code"
  by (simp_all add: shop_world_def shop_coder_def shop_evaluator_def)

lemma shop_scores:
  "score (shop_verdict 0) = ''fail''" "score (shop_verdict (Suc 0)) = ''fail''"
  "score (shop_verdict (Suc (Suc 0))) = ''pass''"
  by (simp_all add: shop_verdict_def)


lemma shop_text_returned:
  "\<exists>r s. process_text_optimization 3 shop_world no_files shop_url = Returned r s
     \<and> trace s
         = [SetViewportSize 1920 880, SetViewportSize 1920 968, ViewportScreenshot 968,
            CoderRun, FileWrite ''sites/shop.example.com/script.js'',
            PageEvaluate (coder_script ''s''),
            SetViewportSize 1920 1064, ViewportScreenshot 1064, EvaluatorRun (shop_verdict 0),
            CoderRun, FileWrite ''sites/shop.example.com/script.js'',
            PageEvaluate (coder_script ''s+''),
            SetViewportSize 1920 1170, ViewportScreenshot 1170, EvaluatorRun (shop_verdict 1),
            CoderRun, FileWrite ''sites/shop.example.com/script.js'',
            PageEvaluate (coder_script ''s++''),
            SetViewportSize 1920 1287, ViewportScreenshot 1287, EvaluatorRun (shop_verdict 2),
            PageEvaluate (coder_script ''s++''),
            SetViewportSize 1920 1415, ViewportScreenshot 1415,
            LogAppend ''sites/shop.example.com/log.txt'' (''- d++'' @ newline),
            BrowserClose]
     \<and> viewport_height (page s) = 1415"
proof -
  have v: "shop_verdict 2 = shop_verdict (Suc (Suc 0))"
    by (simp add: numeral_2_eq_2)
  show ?thesis
    unfolding process_text_loop shop_site_folder numeral_3_eq_3 v
    by (simp add: text_iteration_def Let_def take_viewport_screenshot_def emit_def
        evaluate_script_def script_started_def text_loop_start_def shop_oracles shop_scores
        int_times_1_1_small open_page_def shop_proposal_def log_line_def)
qed





lemma no_images_inventory:
  "image_inventory (urljoin no_images_world) (requests_head no_images_world) shop_url
     (dom_images no_images_world shop_url) = []"
  by (simp add: no_images_world_def image_inventory_def collect_images_eq)

section \<open>Observations of a trace\<close>

lemma screenshot_heights_append:
  "screenshot_heights (xs @ ys) = screenshot_heights xs @ screenshot_heights ys"
  by (induction xs rule: screenshot_heights.induct) simp_all

lemma scaled_from_append:
  "scaled_from a (hs @ hs') = (scaled_from a hs \<and> scaled_from (last (a # hs)) hs')"
  by (induction hs arbitrary: a) auto

lemma resizes_append:
  "resizes (xs @ ys) = resizes xs @ resizes ys"
  by (induction xs rule: resizes.induct) simp_all


lemma log_appends_append:
  "log_appends (xs @ ys) = log_appends xs @ log_appends ys"
  by (induction xs rule: log_appends.induct) simp_all

lemma verdicts_append:
  "verdicts (xs @ ys) = verdicts xs @ verdicts ys"
  by (induction xs rule: verdicts.induct) simp_all




lemma nonpass_last:
  "list_all nonpass vs \<Longrightarrow> \<not> (vs \<noteq> [] \<and> score (last vs) = ''pass'')"
  by (induction vs) (auto simp: nonpass_def)

section \<open>A pass of either loop\<close>

lemma take_viewport_screenshot_Inr:
  assumes "take_viewport_screenshot w s = Inr (s', shot)"
  shows "int_times_1_1 (viewport_height (page s)) = Some (viewport_height (page s'))"
    and "viewport_width (page s') = viewport_width (page s)"
    and "shot = b64encode w (page_screenshot w False (page s'))"
  using assms
  by (auto simp: take_viewport_screenshot_def emit_def Let_def split: option.splits)

lemma take_viewport_screenshot_trace:
  assumes "take_viewport_screenshot w s = Inr (s', shot)"
  shows "trace s' = trace s @ [SetViewportSize (viewport_width (page s)) (viewport_height (page s')),
                               ViewportScreenshot (viewport_height (page s'))]"
    and "fs s' = fs s" and "input_items s' = input_items s"
    and "evaluated (page s') = evaluated (page s)"
  using assms
  by (auto simp: take_viewport_screenshot_def emit_def Let_def split: option.splits)

lemma text_iteration_Continue:
  assumes "text_iteration w f i s = Continue s'"
  shows "\<exists>run v h.
      coder w i (input_items s) = Some run
      \<and> int_times_1_1 (viewport_height (page s)) = Some h
      \<and> score v \<noteq> ''pass''
      \<and> viewport_height (page s') = h
      \<and> trace s' = trace s
          @ [CoderRun, FileWrite (f @ ''/script.js''),
             PageEvaluate (coder_script (JSOutput.script (final_output run))),
             SetViewportSize (viewport_width (page s)) h, ViewportScreenshot h,
             EvaluatorRun v]
      \<and> input_items s' = input_items s @ new_items run
          @ [user_message [input_text result_request,
               input_image (data_url (b64encode w (page_screenshot w False (page s'))))],
             user_text (''Feedback: '' @ feedback v)]"
  using assms
  by (auto simp: text_iteration_def Let_def take_viewport_screenshot_def emit_def
      evaluate_script_def script_started_def
      split: option.splits sum.splits if_splits prod.splits)

lemma text_iteration_Break:
  assumes "text_iteration w f i s = Break r s'"
  shows "\<exists>run v h h'.
      coder w i (input_items s) = Some run
      \<and> int_times_1_1 (viewport_height (page s)) = Some h
      \<and> int_times_1_1 h = Some h'
      \<and> score v = ''pass''
      \<and> viewport_height (page s') = h'
      \<and> trace s' = trace s
          @ [CoderRun, FileWrite (f @ ''/script.js''),
             PageEvaluate (coder_script (JSOutput.script (final_output run))),
             SetViewportSize (viewport_width (page s)) h, ViewportScreenshot h,
             EvaluatorRun v,
             PageEvaluate (coder_script (JSOutput.script (final_output run))),
             SetViewportSize (viewport_width (page s)) h', ViewportScreenshot h',
             LogAppend (f @ ''/log.txt'')
               (''- '' @ JSOutput.change_description (final_output run) @ newline)]
      \<and> coder_response r = JSOutput.change_description (final_output run)"
  using assms
  by (auto simp: text_iteration_def Let_def take_viewport_screenshot_def emit_def
      evaluate_script_def script_started_def log_line_def
      split: option.splits sum.splits if_splits prod.splits)

lemma text_iteration_Raise:
  assumes "text_iteration w f i s = Raise e s'"
  shows "(trace s' = trace s @ [CoderRun] \<and> viewport_height (page s') = viewport_height (page s))
    \<or> (\<exists>c. trace s' = trace s @ [CoderRun, FileWrite (f @ ''/script.js''), PageEvaluate c]
           \<and> viewport_height (page s') = viewport_height (page s))
    \<or> (\<exists>c h. trace s' = trace s
              @ [CoderRun, FileWrite (f @ ''/script.js''), PageEvaluate c,
                 SetViewportSize (viewport_width (page s)) h, ViewportScreenshot h]
           \<and> int_times_1_1 (viewport_height (page s)) = Some h
           \<and> viewport_height (page s') = h)
    \<or> (\<exists>c h v. trace s' = trace s
              @ [CoderRun, FileWrite (f @ ''/script.js''), PageEvaluate c,
                 SetViewportSize (viewport_width (page s)) h, ViewportScreenshot h,
                 EvaluatorRun v, PageEvaluate c]
           \<and> score v = ''pass''
           \<and> int_times_1_1 (viewport_height (page s)) = Some h
           \<and> viewport_height (page s') = h)"
  using assms
  by (auto simp: text_iteration_def Let_def take_viewport_screenshot_def emit_def
      evaluate_script_def script_started_def
      split: option.splits sum.splits if_splits prod.splits)


lemma image_iteration_retry:
  assumes "image_iteration w d p c i (s, l) = Continue (s', l')"
  shows "\<exists>v f. result l' = Some v \<and> score v \<noteq> ''pass''
      \<and> input_items s' = input_items s
          @ [user_message [input_image (data_url (screenshot_base64 l'))],
             user_text (''Feedback: '' @ feedback v)]
      \<and> trace s' = trace s
          @ [HttpGet (image_url c), ImagesEdit, FileWrite f, Upload f,
             PageEvaluate (replace_image_script (image_url c)
                (py_str (image_locals.new_image_url l'))),
             FullPageScreenshot, FileWrite (path_join d ''after_replacement.png''),
             EvaluatorRun v]"
  using assms
  by (auto simp: image_iteration_def observe_and_evaluate_def Let_def emit_def
      split: option.splits sum.splits if_splits)

lemma image_iteration_Break:
  assumes "image_iteration w d p c i (s, l) = Break r (s', l')"
  shows "\<exists>es. trace s' = trace s @ HttpGet (image_url c) # es
      \<and> downloads es = [] \<and> count_list es SpecialistRun = 0
      \<and> ((verdicts es = [] \<and> log_appends es = [])
          \<or> (\<exists>v. verdicts es = [v] \<and> score v = ''pass''
                \<and> log_appends es
                    = [(d @ ''/log.txt'',
                        ''- '' @ ImageChange.change_description c @ newline)]))"
  using assms
  by (auto simp: image_iteration_def observe_and_evaluate_def Let_def emit_def log_line_def
      split: option.splits sum.splits if_splits)

lemma image_iteration_no_raise:
  "case image_iteration w d p c i sl of
     Continue sl' \<Rightarrow> True | Break r sl' \<Rightarrow> True | Raise e sl' \<Rightarrow> False"
  by (cases sl)
    (auto simp: image_iteration_def observe_and_evaluate_def Let_def
      split: option.splits sum.splits)

section \<open>The viewport in a text run\<close>

lemma scaled_from_sorted:
  "scaled_from a hs \<Longrightarrow> 10 \<le> a \<Longrightarrow> sorted_wrt (<) (a # hs)"
proof (induction hs arbitrary: a)
  case Nil
  then show ?case by simp
next
  case (Cons h hs)
  then have step: "int_times_1_1 a = Some h" and rest: "scaled_from h hs" by simp_all
  from step Cons.prems(2) have lt: "a < h" by (rule int_times_1_1_grows[rotated])
  with Cons.prems(2) have "10 \<le> h" by simp
  with rest have "sorted_wrt (<) (h # hs)" by (rule Cons.IH)
  with lt show ?case by auto
qed

lemma scaled_from_snoc:
  "scaled_from a (hs @ [h]) = (scaled_from a hs \<and> int_times_1_1 (last (a # hs)) = Some h)"
  by (simp add: scaled_from_append)

lemma viewport_ok_parts:
  assumes "viewport_ok s"
  shows "resizes (trace s) = 880 # screenshot_heights (trace s)"
    and "scaled_from 880 (screenshot_heights (trace s))"
    and "viewport_height (page s) = last (880 # screenshot_heights (trace s))"
  using assms by (auto simp: viewport_ok_def)

lemma viewport_ok_intro:
  assumes "resizes (trace s) = 880 # screenshot_heights (trace s)"
    and "scaled_from 880 (screenshot_heights (trace s))"
    and "viewport_height (page s) = last (880 # screenshot_heights (trace s))"
  shows "viewport_ok s"
  using assms by (simp add: viewport_ok_def int_times_1_1_800)

lemma viewport_ok_capture:
  assumes ok: "viewport_ok s"
    and h: "int_times_1_1 (viewport_height (page s)) = Some h"
    and "viewport_height (page s') = h"
    and "resizes (trace s') = resizes (trace s) @ [h]"
    and "screenshot_heights (trace s') = screenshot_heights (trace s) @ [h]"
  shows "viewport_ok s'"
proof (rule viewport_ok_intro)
  note p = viewport_ok_parts[OF ok]
  show "resizes (trace s') = 880 # screenshot_heights (trace s')"
    using assms(4,5) p(1) by simp
  show "scaled_from 880 (screenshot_heights (trace s'))"
    unfolding assms(5) scaled_from_append using p(2) h p(3) by simp
  show "viewport_height (page s') = last (880 # screenshot_heights (trace s'))"
    using assms(3,5) by simp
qed

lemma viewport_ok_captures:
  assumes ok: "viewport_ok s"
    and h: "int_times_1_1 (viewport_height (page s)) = Some h"
    and h': "int_times_1_1 h = Some h'"
    and "viewport_height (page s') = h'"
    and "resizes (trace s') = resizes (trace s) @ [h, h']"
    and "screenshot_heights (trace s') = screenshot_heights (trace s) @ [h, h']"
  shows "viewport_ok s'"
proof (rule viewport_ok_intro)
  note p = viewport_ok_parts[OF ok]
  show "resizes (trace s') = 880 # screenshot_heights (trace s')"
    using assms(5,6) p(1) by simp
  show "scaled_from 880 (screenshot_heights (trace s'))"
    unfolding assms(6) scaled_from_append using p(2) h h' p(3) by simp
  show "viewport_height (page s') = last (880 # screenshot_heights (trace s'))"
    using assms(4,6) by simp
qed

lemma viewport_ok_same:
  assumes "viewport_ok s"
    and "viewport_height (page s') = viewport_height (page s)"
    and "resizes (trace s') = resizes (trace s)"
    and "screenshot_heights (trace s') = screenshot_heights (trace s)"
  shows "viewport_ok s'"
  using viewport_ok_parts[OF assms(1)] assms(2-4) by (intro viewport_ok_intro) simp_all

lemma viewport_ok_close:
  "viewport_ok s \<Longrightarrow> viewport_ok (s\<lparr>trace := trace s @ [BrowserClose]\<rparr>)"
  by (rule viewport_ok_same[of s]) (simp_all add: resizes_append screenshot_heights_append)

lemma text_iteration_viewport_ok:
  assumes "viewport_ok s \<and> length (verdicts (trace s)) = i
      \<and> length (screenshot_heights (trace s)) = Suc i"
  shows "case text_iteration w f i s of
           Continue s' \<Rightarrow>
             viewport_ok s' \<and> length (verdicts (trace s')) = Suc i
             \<and> length (screenshot_heights (trace s')) = Suc (Suc i)
         | Break r s' \<Rightarrow>
             viewport_ok s'
             \<and> length (screenshot_heights (trace s')) = length (verdicts (trace s')) + 2
         | Raise e s' \<Rightarrow>
             viewport_ok s'
             \<and> length (verdicts (trace s')) + 1 \<le> length (screenshot_heights (trace s'))
             \<and> length (screenshot_heights (trace s')) \<le> length (verdicts (trace s')) + 2"
proof (cases "text_iteration w f i s")
  case (Continue s')
  note d = text_iteration_Continue[OF Continue]
  have r: "int_times_1_1 (viewport_height (page s)) = Some (viewport_height (page s'))"
    "resizes (trace s') = resizes (trace s) @ [viewport_height (page s')]"
    "screenshot_heights (trace s') = screenshot_heights (trace s) @ [viewport_height (page s')]"
    "length (verdicts (trace s')) = Suc (length (verdicts (trace s)))"
    using d by (auto simp: resizes_append screenshot_heights_append verdicts_append)
  from assms r(1-3) have "viewport_ok s'"
    by (intro viewport_ok_capture[of s "viewport_height (page s')" s']) simp_all
  with assms r Continue show ?thesis by simp
next
  case (Break res s')
  note d = text_iteration_Break[OF Break]
  have r: "\<exists>h. int_times_1_1 (viewport_height (page s)) = Some h
      \<and> int_times_1_1 h = Some (viewport_height (page s'))
      \<and> resizes (trace s') = resizes (trace s) @ [h, viewport_height (page s')]
      \<and> screenshot_heights (trace s')
          = screenshot_heights (trace s) @ [h, viewport_height (page s')]"
    "length (verdicts (trace s')) = Suc (length (verdicts (trace s)))"
    using d by (auto simp: resizes_append screenshot_heights_append verdicts_append)
  from assms r(1) have ok: "viewport_ok s'"
    by (auto intro: viewport_ok_captures[of s _ "viewport_height (page s')" s'])
  from r(1) have "length (screenshot_heights (trace s'))
      = length (screenshot_heights (trace s)) + 2"
    by auto
  with assms ok r(2) Break show ?thesis by simp
next
  case (Raise e s')
  note d = text_iteration_Raise[OF Raise]
  from d consider
    (same) "viewport_height (page s') = viewport_height (page s)"
      "resizes (trace s') = resizes (trace s)"
      "screenshot_heights (trace s') = screenshot_heights (trace s)"
      "verdicts (trace s') = verdicts (trace s)"
    | (capture) "int_times_1_1 (viewport_height (page s)) = Some (viewport_height (page s'))"
      "resizes (trace s') = resizes (trace s) @ [viewport_height (page s')]"
      "screenshot_heights (trace s')
          = screenshot_heights (trace s) @ [viewport_height (page s')]"
      "length (verdicts (trace s')) \<le> Suc (length (verdicts (trace s)))"
      "length (verdicts (trace s)) \<le> length (verdicts (trace s'))"
    by (auto simp: resizes_append screenshot_heights_append verdicts_append)
  then show ?thesis
  proof cases
    case same
    from assms same(1-3) have "viewport_ok s'"
      by (intro viewport_ok_same[of s s']) simp_all
    with assms same Raise show ?thesis by simp
  next
    case capture
    from assms capture(1-3) have "viewport_ok s'"
      by (intro viewport_ok_capture[of s "viewport_height (page s')" s']) simp_all
    with assms capture Raise show ?thesis by simp
  qed
qed

lemma text_run_viewport:
  "case process_text_optimization fuel w files url of
     Unfinished s \<Rightarrow>
       viewport_ok s \<and> length (verdicts (trace s)) = fuel
       \<and> length (screenshot_heights (trace s)) = Suc fuel
   | Returned r s \<Rightarrow>
       viewport_ok s
       \<and> length (screenshot_heights (trace s)) = length (verdicts (trace s)) + 2
   | Raised e s \<Rightarrow>
       viewport_ok s
       \<and> length (verdicts (trace s)) + 1 \<le> length (screenshot_heights (trace s))
       \<and> length (screenshot_heights (trace s)) \<le> length (verdicts (trace s)) + 2"
proof -
  have start: "viewport_ok (text_loop_start w files url)
      \<and> length (verdicts (trace (text_loop_start w files url))) = 0
      \<and> length (screenshot_heights (trace (text_loop_start w files url))) = Suc 0"
    by (simp add: viewport_ok_def text_loop_start_def int_times_1_1_800 int_times_1_1_880)
  note run = text_run_indexed
    [where I = "\<lambda>i s. viewport_ok s \<and> length (verdicts (trace s)) = i
         \<and> length (screenshot_heights (trace s)) = Suc i"
       and Q = "\<lambda>r s. viewport_ok s
         \<and> length (screenshot_heights (trace s)) = length (verdicts (trace s)) + 2"
       and R = "\<lambda>e s. viewport_ok s
         \<and> length (verdicts (trace s)) + 1 \<le> length (screenshot_heights (trace s))
         \<and> length (screenshot_heights (trace s)) \<le> length (verdicts (trace s)) + 2"
       and w = w and files = files and url = url and fuel = fuel,
     OF start text_iteration_viewport_ok]
  from run show ?thesis
    by (auto simp: viewport_ok_close emit_def screenshot_heights_append verdicts_append
        split: outcome.splits)
qed

lemma text_run_viewport_final:
  "viewport_ok (final_state (process_text_optimization fuel w files url))"
  using text_run_viewport[of fuel w files url]
  by (auto simp: final_state_def split: outcome.splits)

lemma text_iteration_heights:
  "case text_iteration w f i s of
     Continue s' \<Rightarrow>
       int_times_1_1 (viewport_height (page s)) = Some (viewport_height (page s'))
       \<and> screenshot_heights (trace s')
           = screenshot_heights (trace s) @ [viewport_height (page s')]
   | Break r s' \<Rightarrow>
       (\<exists>h. int_times_1_1 (viewport_height (page s)) = Some h
          \<and> int_times_1_1 h = Some (viewport_height (page s'))
          \<and> screenshot_heights (trace s')
              = screenshot_heights (trace s) @ [h, viewport_height (page s')])
   | Raise e s' \<Rightarrow>
       (viewport_height (page s') = viewport_height (page s)
        \<and> screenshot_heights (trace s') = screenshot_heights (trace s))
       \<or> (int_times_1_1 (viewport_height (page s)) = Some (viewport_height (page s'))
           \<and> screenshot_heights (trace s')
               = screenshot_heights (trace s) @ [viewport_height (page s')])"
proof (cases "text_iteration w f i s")
  case (Continue s')
  from text_iteration_Continue[OF this] Continue show ?thesis
    by (auto simp: screenshot_heights_append)
next
  case (Break r s')
  from text_iteration_Break[OF this] Break show ?thesis
    by (auto simp: screenshot_heights_append)
next
  case (Raise e s')
  from text_iteration_Raise[OF this] Raise show ?thesis
    by (auto simp: screenshot_heights_append)
qed

text \<open>
  C9. \<^verbatim>\<open>take_viewport_screenshot\<close> changes the page before it captures it: the height
  becomes \<^verbatim>\<open>int(1.1 * height)\<close>, the width stays, the resize is the step before the
  capture, and the capture is of the resized page; from a height of 10 or more the new
  height is strictly greater. A pass of the text loop that is followed by another has
  captured once, at \<^verbatim>\<open>int(1.1 * height)\<close> of the height it began with; the accepting
  pass has captured twice, each time at \<^verbatim>\<open>int(1.1 * height)\<close> of the height before; a
  pass that raises has captured once or not at all. In a text run the page opens at a
  height of 800; the heights that the run sets are 880, in the resize before the loop,
  followed by the heights of its captures; each of them is \<^verbatim>\<open>int(1.1 * height)\<close> of
  the one before; the page has the last of them; and they grow strictly. A run that is
  still in its loop after \<open>fuel\<close> passes has \<open>fuel\<close> verdicts and \<open>fuel + 1\<close> captures,
  the one before the loop and one for every pass; a run that returns has two captures
  more than verdicts; a run that raises has one or two more.
\<close>

theorem viewport_height_grows:
  "(take_viewport_screenshot w s = Inr (s', shot) \<longrightarrow>
       int_times_1_1 (viewport_height (page s)) = Some (viewport_height (page s'))
     \<and> viewport_width (page s') = viewport_width (page s)
     \<and> shot = b64encode w (page_screenshot w False (page s'))
     \<and> trace s' = trace s
         @ [SetViewportSize (viewport_width (page s)) (viewport_height (page s')),
            ViewportScreenshot (viewport_height (page s'))]
     \<and> (10 \<le> viewport_height (page s) \<longrightarrow> viewport_height (page s) < viewport_height (page s')))
   \<and> (case text_iteration w f i st of
         Continue st' \<Rightarrow>
           int_times_1_1 (viewport_height (page st)) = Some (viewport_height (page st'))
           \<and> screenshot_heights (trace st')
               = screenshot_heights (trace st) @ [viewport_height (page st')]
       | Break r st' \<Rightarrow>
           (\<exists>h. int_times_1_1 (viewport_height (page st)) = Some h
              \<and> int_times_1_1 h = Some (viewport_height (page st'))
              \<and> screenshot_heights (trace st')
                  = screenshot_heights (trace st) @ [h, viewport_height (page st')])
       | Raise e st' \<Rightarrow>
           (viewport_height (page st') = viewport_height (page st)
            \<and> screenshot_heights (trace st') = screenshot_heights (trace st))
           \<or> (int_times_1_1 (viewport_height (page st)) = Some (viewport_height (page st'))
               \<and> screenshot_heights (trace st')
                   = screenshot_heights (trace st) @ [viewport_height (page st')]))
   \<and> viewport_height (open_page w url) = 800
   \<and> int_times_1_1 800 = Some 880
   \<and> resizes (trace (final_state (process_text_optimization fuel w files url)))
       = 880 # screenshot_heights
                 (trace (final_state (process_text_optimization fuel w files url)))
   \<and> viewport_height (page (final_state (process_text_optimization fuel w files url)))
       = last (resizes (trace (final_state (process_text_optimization fuel w files url))))
   \<and> scaled_from 800
        (resizes (trace (final_state (process_text_optimization fuel w files url))))
   \<and> scaled_from 880
        (screenshot_heights (trace (final_state (process_text_optimization fuel w files url))))
   \<and> sorted_wrt (<)
        (800 # 880 #
           screenshot_heights (trace (final_state (process_text_optimization fuel w files url))))
   \<and> (case process_text_optimization fuel w files url of
         Unfinished sf \<Rightarrow>
           length (verdicts (trace sf)) = fuel
           \<and> length (screenshot_heights (trace sf)) = Suc fuel
       | Returned r sf \<Rightarrow>
           length (screenshot_heights (trace sf)) = length (verdicts (trace sf)) + 2
       | Raised e sf \<Rightarrow>
           length (verdicts (trace sf)) + 1 \<le> length (screenshot_heights (trace sf))
           \<and> length (screenshot_heights (trace sf)) \<le> length (verdicts (trace sf)) + 2)"
proof -
  let ?F = "final_state (process_text_optimization fuel w files url)"
  have a: "take_viewport_screenshot w s = Inr (s', shot) \<Longrightarrow>
       int_times_1_1 (viewport_height (page s)) = Some (viewport_height (page s'))
     \<and> viewport_width (page s') = viewport_width (page s)
     \<and> shot = b64encode w (page_screenshot w False (page s'))
     \<and> trace s' = trace s
         @ [SetViewportSize (viewport_width (page s)) (viewport_height (page s')),
            ViewportScreenshot (viewport_height (page s'))]"
    using take_viewport_screenshot_Inr[of w s s' shot]
      take_viewport_screenshot_trace(1)[of w s s' shot] by simp
  have b: "take_viewport_screenshot w s = Inr (s', shot) \<Longrightarrow> 10 \<le> viewport_height (page s)
      \<Longrightarrow> viewport_height (page s) < viewport_height (page s')"
    using a int_times_1_1_grows by blast
  note p = viewport_ok_parts[OF text_run_viewport_final[of fuel w files url]]
  have c: "scaled_from 800 (resizes (trace ?F))"
    using p by (simp add: int_times_1_1_800)
  have l: "viewport_height (page ?F) = last (resizes (trace ?F))"
    using p by simp
  from p(2) have "sorted_wrt (<) (880 # screenshot_heights (trace ?F))"
    by (rule scaled_from_sorted) simp
  then have d: "sorted_wrt (<) (800 # 880 # screenshot_heights (trace ?F))"
    by auto
  have o: "viewport_height (open_page w url) = 800"
    by (simp add: open_page_def)
  have e: "case process_text_optimization fuel w files url of
         Unfinished sf \<Rightarrow>
           length (verdicts (trace sf)) = fuel
           \<and> length (screenshot_heights (trace sf)) = Suc fuel
       | Returned r sf \<Rightarrow>
           length (screenshot_heights (trace sf)) = length (verdicts (trace sf)) + 2
       | Raised e sf \<Rightarrow>
           length (verdicts (trace sf)) + 1 \<le> length (screenshot_heights (trace sf))
           \<and> length (screenshot_heights (trace sf)) \<le> length (verdicts (trace sf)) + 2"
    using text_run_viewport[of fuel w files url] by (auto split: outcome.splits)
  show ?thesis
    using a b text_iteration_heights[where w = w and f = f and i = i and s = st] o int_times_1_1_800 p(1) l c p(2) d e
    by blast
qed

theorem viewport_height_grows_witness:
  "take_viewport_screenshot shop_world (opened shop_world no_files shop_url) =
     Inr (emit [SetViewportSize 1920 880, ViewportScreenshot 880]
            ((opened shop_world no_files shop_url)
               \<lparr>page := (open_page shop_world shop_url)\<lparr>viewport_height := 880\<rparr>\<rparr>), ''shot'')
   \<and> 10 \<le> viewport_height (page (opened shop_world no_files shop_url))
   \<and> viewport_height (page (opened shop_world no_files shop_url))
       < viewport_height (page (emit [SetViewportSize 1920 880, ViewportScreenshot 880]
            ((opened shop_world no_files shop_url)
               \<lparr>page := (open_page shop_world shop_url)\<lparr>viewport_height := 880\<rparr>\<rparr>)))
   \<and> (\<exists>r s. process_text_optimization 3 shop_world no_files shop_url = Returned r s
          \<and> resizes (trace s) = [880, 968, 1064, 1170, 1287, 1415]
          \<and> screenshot_heights (trace s) = [968, 1064, 1170, 1287, 1415]
          \<and> length (verdicts (trace s)) = 3
          \<and> viewport_height (page s) = 1415)"
proof -
  have eq: "take_viewport_screenshot shop_world (opened shop_world no_files shop_url) =
     Inr (emit [SetViewportSize 1920 880, ViewportScreenshot 880]
            ((opened shop_world no_files shop_url)
               \<lparr>page := (open_page shop_world shop_url)\<lparr>viewport_height := 880\<rparr>\<rparr>), ''shot'')"
    by (simp add: take_viewport_screenshot_def opened_def open_page_def int_times_1_1_800
        shop_world_def)
  have ten: "10 \<le> viewport_height (page (opened shop_world no_files shop_url))"
    by (simp add: opened_def open_page_def)
  from shop_text_returned obtain r sf where
    run: "process_text_optimization 3 shop_world no_files shop_url = Returned r sf"
    and heights: "screenshot_heights (trace sf) = [968, 1064, 1170, 1287, 1415]"
    by auto
  note inst = viewport_height_grows
         [where w = shop_world and s = "opened shop_world no_files shop_url"
            and s' = "emit [SetViewportSize 1920 880, ViewportScreenshot 880]
               ((opened shop_world no_files shop_url)
                  \<lparr>page := (open_page shop_world shop_url)\<lparr>viewport_height := 880\<rparr>\<rparr>)"
            and shot = "''shot''" and fuel = 3 and files = no_files and url = shop_url]
  from inst eq ten
  have grows: "viewport_height (page (opened shop_world no_files shop_url))
       < viewport_height (page (emit [SetViewportSize 1920 880, ViewportScreenshot 880]
            ((opened shop_world no_files shop_url)
               \<lparr>page := (open_page shop_world shop_url)\<lparr>viewport_height := 880\<rparr>\<rparr>)))"
    by blast
  from inst have "resizes (trace (final_state
        (process_text_optimization 3 shop_world no_files shop_url)))
       = 880 # screenshot_heights (trace (final_state
        (process_text_optimization 3 shop_world no_files shop_url)))"
    and "viewport_height (page (final_state
        (process_text_optimization 3 shop_world no_files shop_url)))
       = last (resizes (trace (final_state
        (process_text_optimization 3 shop_world no_files shop_url))))"
    and "case process_text_optimization 3 shop_world no_files shop_url of
         Unfinished sf \<Rightarrow>
           length (verdicts (trace sf)) = 3
           \<and> length (screenshot_heights (trace sf)) = Suc 3
       | Returned r sf \<Rightarrow>
           length (screenshot_heights (trace sf)) = length (verdicts (trace sf)) + 2
       | Raised e sf \<Rightarrow>
           length (verdicts (trace sf)) + 1 \<le> length (screenshot_heights (trace sf))
           \<and> length (screenshot_heights (trace sf)) \<le> length (verdicts (trace sf)) + 2"
    by blast+
  with run heights have "resizes (trace sf) = [880, 968, 1064, 1170, 1287, 1415]"
    "length (verdicts (trace sf)) = 3" "viewport_height (page sf) = 1415"
    by (simp_all add: final_state_def)
  with run heights eq ten grows show ?thesis by simp
qed

section \<open>Accepting a change\<close>

lemma accept_checked_no_log:
  "log_appends xs = [] \<Longrightarrow> accept_checked v xs"
  by (induction v xs rule: accept_checked.induct) simp_all

lemma accept_checked_coder:
  "log_appends xs = [] \<Longrightarrow> accept_checked v (xs @ CoderRun # ys) = accept_checked None ys"
  by (induction v xs rule: accept_checked.induct) simp_all

lemma accept_checked_download:
  "log_appends xs = [] \<Longrightarrow> accept_checked v (xs @ HttpGet u # ys) = accept_checked None ys"
  by (induction v xs rule: accept_checked.induct) simp_all

lemma accept_checked_close:
  "log_appends xs = [] \<Longrightarrow> accept_checked v (xs @ [BrowserClose])"
  by (induction v xs rule: accept_checked.induct) simp_all

lemma text_iteration_accept:
  assumes "log_appends (trace s) = []"
  shows "case text_iteration w f i s of
           Continue s' \<Rightarrow> log_appends (trace s') = []
         | Break r s' \<Rightarrow> accepted_or_not (trace s')
         | Raise e s' \<Rightarrow> log_appends (trace s') = []"
  using assms
  by (auto simp: text_iteration_def Let_def take_viewport_screenshot_def emit_def
      evaluate_script_def script_started_def log_appends_append accept_checked_coder accepted_or_not_def
      split: option.splits)

lemma image_iteration_accept:
  assumes "log_appends (trace (fst sl)) = []"
  shows "case image_iteration w d p c i sl of
           Continue sl' \<Rightarrow> log_appends (trace (fst sl')) = []
         | Break r sl' \<Rightarrow> accepted_or_not (trace (fst sl'))
         | Raise e sl' \<Rightarrow> False"
  using assms
  by (cases sl)
    (auto simp: image_iteration_def observe_and_evaluate_def Let_def emit_def
      log_appends_append accept_checked_download accept_checked_no_log accept_checked_close
      accepted_or_not_def
      split: option.splits sum.splits)

lemma text_run_accept:
  "accept_checked None (trace (final_state (process_text_optimization fuel w files url)))"
proof -
  have "log_appends (trace (text_loop_start w files url)) = []"
    by (simp add: text_loop_start_def)
  then have "case process_text_optimization fuel w files url of
           Unfinished s \<Rightarrow> log_appends (trace s) = []
         | Returned r s \<Rightarrow> (\<exists>s'. s = emit [BrowserClose] s' \<and> accepted_or_not (trace s'))
         | Raised e s \<Rightarrow> log_appends (trace s) = []"
    by (rule text_run_rule[where I = "\<lambda>s. log_appends (trace s) = []"])
      (rule text_iteration_accept)
  then show ?thesis
    by (auto simp: final_state_def emit_def accepted_or_not_def accept_checked_no_log
        split: outcome.splits)
qed

lemma image_run_accept:
  "accept_checked None (trace (final_state (process_image_optimization fuel w files url prompt)))"
proof -
  have start: "log_appends (trace (fst (image_loop_start w files url change))) = []" for change
    by (simp add: image_loop_start_def)
  note run = image_run_rule
    [where I = "\<lambda>sl. log_appends (trace (fst sl)) = []"
       and Q = "\<lambda>change sl. accepted_or_not (trace (fst sl))",
     of w files url prompt fuel, OF start image_iteration_accept]
  from run show ?thesis
    by (auto simp: final_state_def emit_def opened_def accepted_or_not_def accept_checked_no_log
        split: outcome.splits option.splits)
qed

lemma text_iteration_verdict:
  assumes "log_appends (trace s) = []"
  shows "case text_iteration w f i s of
           Continue s' \<Rightarrow> log_appends (trace s') = []
         | Break r s' \<Rightarrow> verdicts (trace s') \<noteq> [] \<and> score (last (verdicts (trace s'))) = ''pass''
         | Raise e s' \<Rightarrow> log_appends (trace s') = []"
  using assms
  by (auto simp: text_iteration_def Let_def take_viewport_screenshot_def emit_def
      evaluate_script_def script_started_def log_appends_append verdicts_append
      split: option.splits)

lemma image_iteration_verdict:
  assumes "log_appends (trace (fst sl)) = []"
  shows "case image_iteration w d p c i sl of
           Continue sl' \<Rightarrow> log_appends (trace (fst sl')) = []
         | Break r sl' \<Rightarrow>
             log_appends (trace (fst sl')) = []
             \<or> (verdicts (trace (fst sl')) \<noteq> []
                \<and> score (last (verdicts (trace (fst sl')))) = ''pass'')
         | Raise e sl' \<Rightarrow> False"
  using assms
  by (cases sl)
    (auto simp: image_iteration_def observe_and_evaluate_def Let_def emit_def
      log_appends_append verdicts_append
      split: option.splits sum.splits)

lemma text_run_verdict:
  "log_appends (trace (final_state (process_text_optimization fuel w files url))) \<noteq> [] \<Longrightarrow>
   verdicts (trace (final_state (process_text_optimization fuel w files url))) \<noteq> []
   \<and> score (last (verdicts (trace (final_state (process_text_optimization fuel w files url)))))
       = ''pass''"
proof -
  have start: "log_appends (trace (text_loop_start w files url)) = []"
    by (simp add: text_loop_start_def)
  note run = text_run_rule
    [where I = "\<lambda>s. log_appends (trace s) = []"
       and Q = "\<lambda>r s. verdicts (trace s) \<noteq> [] \<and> score (last (verdicts (trace s))) = ''pass''"
       and R = "\<lambda>e s. log_appends (trace s) = []"
       and w = w and files = files and url = url and fuel = fuel,
     OF start text_iteration_verdict]
  assume "log_appends (trace (final_state (process_text_optimization fuel w files url))) \<noteq> []"
  with run show ?thesis
    by (auto simp: final_state_def emit_def verdicts_append split: outcome.splits)
qed

lemma image_run_verdict:
  "log_appends (trace (final_state (process_image_optimization fuel w files url prompt))) \<noteq> []
   \<Longrightarrow>
   verdicts (trace (final_state (process_image_optimization fuel w files url prompt))) \<noteq> []
   \<and> score (last (verdicts (trace (final_state
          (process_image_optimization fuel w files url prompt))))) = ''pass''"
proof -
  have start: "log_appends (trace (fst (image_loop_start w files url change))) = []" for change
    by (simp add: image_loop_start_def)
  note run = image_run_rule
    [where I = "\<lambda>sl. log_appends (trace (fst sl)) = []"
       and Q = "\<lambda>change sl. log_appends (trace (fst sl)) = []
             \<or> (verdicts (trace (fst sl)) \<noteq> []
                \<and> score (last (verdicts (trace (fst sl)))) = ''pass'')"
       and w = w and files = files and url = url and prompt = prompt and fuel = fuel,
     OF start image_iteration_verdict]
  assume "log_appends (trace (final_state
      (process_image_optimization fuel w files url prompt))) \<noteq> []"
  with run show ?thesis
    by (auto simp: final_state_def emit_def opened_def verdicts_append log_appends_append
        split: outcome.splits option.splits)
qed

text \<open>
  C2. In a text run and in an image run, followed for any number of passes and however
  they end, the trace is a checked one: a line is appended to a log only after the
  evaluator's verdict of the same pass, only when the score of that verdict is exactly
  \<^verbatim>\<open>pass\<close>, and only as the last step before the browser is closed. In particular,
  when a run has appended a line, the evaluator has given a verdict and the score of its
  last verdict is \<^verbatim>\<open>pass\<close>.
\<close>

theorem accept_only_after_pass:
  "accept_checked None (trace (final_state (process_text_optimization fuel w files url)))
   \<and> accept_checked None
        (trace (final_state (process_image_optimization fuel w files url prompt)))
   \<and> (log_appends (trace (final_state (process_text_optimization fuel w files url))) \<noteq> []
        \<longrightarrow>
        verdicts (trace (final_state (process_text_optimization fuel w files url))) \<noteq> []
        \<and> score (last (verdicts (trace (final_state
               (process_text_optimization fuel w files url))))) = ''pass'')
   \<and> (log_appends (trace (final_state
          (process_image_optimization fuel w files url prompt))) \<noteq> []
        \<longrightarrow>
        verdicts (trace (final_state (process_image_optimization fuel w files url prompt)))
          \<noteq> []
        \<and> score (last (verdicts (trace (final_state
               (process_image_optimization fuel w files url prompt))))) = ''pass'')"
  using text_run_accept[of fuel w files url] image_run_accept[of fuel w files url prompt]
    text_run_verdict[of fuel w files url] image_run_verdict[of fuel w files url prompt]
  by blast

lemma shop_image_run:
  "final_state (process_image_optimization 1 shop_world no_files shop_url ''prompt'')
     = emit [BrowserClose] (fst shop_first_pass)"
  by (simp add: process_image_loop[OF shop_inventory_nonempty shop_specialist]
      shop_first_pass_break final_state_def)

theorem accept_only_after_pass_witness:
  "log_appends (trace (final_state
      (process_image_optimization 1 shop_world no_files shop_url ''prompt''))) \<noteq> []
   \<and> verdicts (trace (final_state
        (process_image_optimization 1 shop_world no_files shop_url ''prompt''))) \<noteq> []
   \<and> score (last (verdicts (trace (final_state
        (process_image_optimization 1 shop_world no_files shop_url ''prompt''))))) = ''pass''"
proof -
  have appended: "log_appends (trace (final_state
      (process_image_optimization 1 shop_world no_files shop_url ''prompt''))) \<noteq> []"
    unfolding shop_image_run
    by (simp add: emit_def log_appends_append shop_first_pass_log)
  from accept_only_after_pass
         [where fuel = 1 and w = shop_world and files = no_files and url = shop_url
            and prompt = "''prompt''"] appended
  show ?thesis by blast
qed

section \<open>How often the proposers run\<close>














section \<open>Leaving the image run early\<close>

text \<open>
  C10. An image run returns \<^verbatim>\<open>None\<close> in two cases and no other: the inventory is empty,
  or the specialist's result has no \<^verbatim>\<open>final_output\<close>. The run then ends by closing the
  browser, its only other steps are the capture of the page and the specialist's run,
  so that no pass of the loop has begun, and the files and the page are as they were.
\<close>

theorem returns_none_cases:
  "((\<exists>s. process_image_optimization fuel w files url prompt = Returned None s)
      \<longleftrightarrow> (image_inventory (urljoin w) (requests_head w) url (dom_images w url) = []
           \<or> image_specialist w (specialist_input w url) = Some None))
   \<and> (process_image_optimization fuel w files url prompt = Returned None s \<longrightarrow>
        last (trace s) = BrowserClose
        \<and> set (trace s) \<subseteq> {FullPageScreenshot, SpecialistRun, BrowserClose}
        \<and> count_list (trace s) BrowserClose = 1
        \<and> fs s = files
        \<and> page s = open_page w url)"
proof -
  note run = image_run_rule
    [where I = "\<lambda>sl. True" and Q = "\<lambda>change sl. True"
       and w = w and files = files and url = url and prompt = prompt and fuel = fuel,
     OF TrueI image_iteration_no_raise]
  have a: "(\<exists>s. process_image_optimization fuel w files url prompt = Returned None s)
      \<longleftrightarrow> (image_inventory (urljoin w) (requests_head w) url (dom_images w url) = []
           \<or> image_specialist w (specialist_input w url) = Some None)"
  proof
    assume "\<exists>s. process_image_optimization fuel w files url prompt = Returned None s"
    with run show "image_inventory (urljoin w) (requests_head w) url (dom_images w url) = []
           \<or> image_specialist w (specialist_input w url) = Some None"
      by auto
  next
    assume "image_inventory (urljoin w) (requests_head w) url (dom_images w url) = []
           \<or> image_specialist w (specialist_input w url) = Some None"
    then show "\<exists>s. process_image_optimization fuel w files url prompt = Returned None s"
      using process_image_empty[of w url fuel files prompt]
        process_image_no_output[of w url fuel files prompt]
      by (cases "image_inventory (urljoin w) (requests_head w) url (dom_images w url) = []")
        auto
  qed
  have b: "process_image_optimization fuel w files url prompt = Returned None s \<Longrightarrow>
        last (trace s) = BrowserClose
        \<and> set (trace s) \<subseteq> {FullPageScreenshot, SpecialistRun, BrowserClose}
        \<and> count_list (trace s) BrowserClose = 1
        \<and> fs s = files
        \<and> page s = open_page w url"
    using run by (auto simp: emit_def opened_def)
  from a b show ?thesis by blast
qed

theorem returns_none_cases_witness:
  "process_image_optimization 1 no_images_world no_files shop_url ''prompt''
     = Returned None (emit [BrowserClose] (opened no_images_world no_files shop_url))
   \<and> last (trace (emit [BrowserClose] (opened no_images_world no_files shop_url))) = BrowserClose
   \<and> set (trace (emit [BrowserClose] (opened no_images_world no_files shop_url)))
       \<subseteq> {FullPageScreenshot, SpecialistRun, BrowserClose}
   \<and> count_list (trace (emit [BrowserClose] (opened no_images_world no_files shop_url)))
        BrowserClose = 1
   \<and> fs (emit [BrowserClose] (opened no_images_world no_files shop_url)) = no_files
   \<and> page (emit [BrowserClose] (opened no_images_world no_files shop_url))
       = open_page no_images_world shop_url"
proof -
  have run: "process_image_optimization 1 no_images_world no_files shop_url ''prompt''
     = Returned None (emit [BrowserClose] (opened no_images_world no_files shop_url))"
    by (rule process_image_empty) (rule no_images_inventory)
  from returns_none_cases
         [of 1 no_images_world no_files shop_url "''prompt''"
            "emit [BrowserClose] (opened no_images_world no_files shop_url)"] run
  show ?thesis by blast
qed

section \<open>A download that fails\<close>

lemma shop_inventory_not_found:
  "image_inventory (urljoin not_found_world) (requests_head not_found_world) shop_url
     (dom_images not_found_world shop_url) \<noteq> []"
  using shop_inventory by (simp add: not_found_world_def shop_world_def)

text \<open>
  C8. When the download of the candidate image answers with a status other than 200,
  the pass ends the loop at once: the only step of the pass is the download, and the
  files, the page and the variables are as before it. When this is the first download
  of a run, the run returns with the files and the page as they were when it began, and
  its steps are the capture, the specialist's run, the download and the closing of the
  browser: nothing was written, the image service was not called, nothing was uploaded.
\<close>

theorem download_failure_aborts:
  assumes "requests_get w i (image_url change) = Some (status_code, content)"
    and "status_code \<noteq> 200"
  shows "image_iteration w sites_dir prompt change i (s, l)
           = Break () (emit [HttpGet (image_url change)] s, l)
     \<and> fs (emit [HttpGet (image_url change)] s) = fs s
     \<and> page (emit [HttpGet (image_url change)] s) = page s
     \<and> (i = 0
          \<and> image_inventory (urljoin w) (requests_head w) url (dom_images w url) \<noteq> []
          \<and> image_specialist w (specialist_input w url) = Some (Some change) \<longrightarrow>
          (\<exists>r s'. process_image_optimization (Suc fuel) w files url prompt = Returned (Some r) s'
             \<and> fs s' = files
             \<and> page s' = open_page w url
             \<and> trace s' = [FullPageScreenshot, SpecialistRun, HttpGet (image_url change),
                            BrowserClose]
             \<and> image_result.new_image_url r = None
             \<and> image_result.js_code r = None
             \<and> evaluator_response r = None))"
proof -
  have pass: "image_iteration w d prompt change i (s, l)
           = Break () (emit [HttpGet (image_url change)] s, l)" for d s l
    using assms by (simp add: image_iteration_def Let_def)
  have frame: "fs (emit [HttpGet (image_url change)] s) = fs s"
    "page (emit [HttpGet (image_url change)] s) = page s"
    by (simp_all add: emit_def)
  have run: "\<exists>r s'. process_image_optimization (Suc fuel) w files url prompt = Returned (Some r) s'
             \<and> fs s' = files
             \<and> page s' = open_page w url
             \<and> trace s' = [FullPageScreenshot, SpecialistRun, HttpGet (image_url change),
                            BrowserClose]
             \<and> image_result.new_image_url r = None
             \<and> image_result.js_code r = None
             \<and> evaluator_response r = None"
    if "i = 0" "image_inventory (urljoin w) (requests_head w) url (dom_images w url) \<noteq> []"
      "image_specialist w (specialist_input w url) = Some (Some change)"
  proof -
    have "image_iteration w (image_sites_dir w url) prompt change 0
            (image_loop_start w files url change)
          = Break () (emit [HttpGet (image_url change)] (fst (image_loop_start w files url change)),
                      snd (image_loop_start w files url change))"
      using pass[of "image_sites_dir w url" "fst (image_loop_start w files url change)"
          "snd (image_loop_start w files url change)"] that(1)
      by simp
    then show ?thesis
      using that(2,3)
      by (simp add: process_image_loop image_loop_start_def image_dict_def emit_def)
  qed
  from pass frame run show ?thesis by blast
qed

theorem download_failure_aborts_witness:
  "requests_get not_found_world 0 (image_url shop_change) = Some (404, [])
   \<and> (404::nat) \<noteq> 200
   \<and> image_inventory (urljoin not_found_world) (requests_head not_found_world) shop_url
        (dom_images not_found_world shop_url) \<noteq> []
   \<and> image_specialist not_found_world (specialist_input not_found_world shop_url)
       = Some (Some shop_change)
   \<and> (\<exists>r s'. process_image_optimization (Suc 0) not_found_world no_files shop_url ''prompt''
               = Returned (Some r) s'
             \<and> fs s' = no_files
             \<and> page s' = open_page not_found_world shop_url
             \<and> trace s' = [FullPageScreenshot, SpecialistRun, HttpGet (image_url shop_change),
                            BrowserClose]
             \<and> image_result.new_image_url r = None
             \<and> image_result.js_code r = None
             \<and> evaluator_response r = None)"
proof -
  have get: "requests_get not_found_world 0 (image_url shop_change) = Some (404, [])"
    by (simp add: not_found_world_def)
  have ne: "(404::nat) \<noteq> 200" by simp
  have spec: "image_specialist not_found_world (specialist_input not_found_world shop_url)
       = Some (Some shop_change)"
    by (simp add: not_found_world_def shop_world_def)
  from download_failure_aborts
         [OF get ne, of "image_sites_dir not_found_world shop_url" "''prompt''"
            "fst (image_loop_start not_found_world no_files shop_url shop_change)"
            "snd (image_loop_start not_found_world no_files shop_url shop_change)"
            shop_url 0 no_files]
    get ne shop_inventory_not_found spec
  show ?thesis by blast
qed

section \<open>An upload that fails\<close>

lemma no_token_inventory:
  "image_inventory (urljoin no_token_world) (requests_head no_token_world) shop_url
     (dom_images no_token_world shop_url) \<noteq> []"
  using shop_inventory by (simp add: no_token_world_def shop_world_def)

lemma no_token_specialist:
  "image_specialist no_token_world (specialist_input no_token_world shop_url)
     = Some (Some shop_change)"
  by (simp add: no_token_world_def shop_world_def)

lemma no_token_sites_dir:
  "image_sites_dir no_token_world shop_url = ''sites/shop.example.com/img''"
  by (simp add: image_sites_dir_def no_token_world_def shop_world_def shop_site_name
      path_join_def startswith_def endswith_def)

lemma no_token_upload:
  "upload_to_github no_token_world i files path repo = Inr None"
  by (simp add: upload_to_github_def no_token_world_def)

lemma no_token_pass:
  "image_iteration no_token_world ''sites/shop.example.com/img'' ''prompt'' shop_change 0
     (image_loop_start no_token_world no_files shop_url shop_change) =
   Break ()
     (\<lparr>page = \<lparr>location = shop_url,
                imgs = [\<lparr>src_attr = Some ''https://www.shop.example.com/a.png'', alt_attr = None,
                         naturalWidth = 500, naturalHeight = 500\<rparr>,
                        \<lparr>src_attr = Some ''https://www.shop.example.com/b.png'', alt_attr = None,
                         naturalWidth = 200, naturalHeight = 200\<rparr>,
                        \<lparr>src_attr = Some ''None'', alt_attr = Some ''hero'',
                         naturalWidth = 1000, naturalHeight = 800\<rparr>],
                viewport_width = 1920, viewport_height = 800,
                evaluated = [replace_image_script ''https://www.shop.example.com/c.png'' ''None'']\<rparr>,
       fs = no_files(''sites/shop.example.com/img/id.png'' \<mapsto> ''new''),
       input_items = [user_message [input_text (evaluation_request ''warmer colours'')]],
       trace = [FullPageScreenshot, SpecialistRun,
                HttpGet ''https://www.shop.example.com/c.png'', ImagesEdit,
                FileWrite ''sites/shop.example.com/img/id.png'',
                Upload ''sites/shop.example.com/img/id.png'',
                PageEvaluate (replace_image_script ''https://www.shop.example.com/c.png'' ''None'')]\<rparr>,
      \<lparr>image_locals.new_image_url = None, screenshot_base64 = ''shot'',
       image_locals.js_code =
         Some (replace_image_script ''https://www.shop.example.com/c.png'' ''None''),
       result = None\<rparr>)"
  by (simp add: image_iteration_def observe_and_evaluate_def image_loop_start_def Let_def
      upload_to_github_def run_replace_image_def py_str_def shop_change_def open_page_def
      normalize_url_def startswith_def endswith_def path_join_def emit_def
      no_token_world_def shop_world_def shop_images_def)

text \<open>
  C5: what the code does when the upload fails. Without \<^verbatim>\<open>GITHUB_TOKEN\<close> the upload gives
  \<^verbatim>\<open>None\<close>, and the run goes on: it evaluates the replacement script with the text
  \<^verbatim>\<open>None\<close> as the new source, and the matched image of the page has that source
  afterwards. Only the wait for the uploaded image then ends the loop.
\<close>

theorem upload_failure_still_replaces:
  "github_token no_token_world = None
   \<and> upload_to_github no_token_world 0
        (no_files(''sites/shop.example.com/img/id.png'' \<mapsto> ''new''))
        ''sites/shop.example.com/img/id.png'' (github_repo no_token_world) = Inr None
   \<and> map src_attr (dom_images no_token_world shop_url)
       = [Some ''https://www.shop.example.com/a.png'',
          Some ''https://www.shop.example.com/b.png'',
          Some ''https://www.shop.example.com/c.png'']
   \<and> trace (final_state
        (process_image_optimization 1 no_token_world no_files shop_url ''prompt''))
       = [FullPageScreenshot, SpecialistRun,
          HttpGet ''https://www.shop.example.com/c.png'', ImagesEdit,
          FileWrite ''sites/shop.example.com/img/id.png'',
          Upload ''sites/shop.example.com/img/id.png'',
          PageEvaluate (replace_image_script ''https://www.shop.example.com/c.png'' ''None''),
          BrowserClose]
   \<and> map src_attr (imgs (page (final_state
        (process_image_optimization 1 no_token_world no_files shop_url ''prompt''))))
       = [Some ''https://www.shop.example.com/a.png'',
          Some ''https://www.shop.example.com/b.png'',
          Some ''None'']"
proof -
  have a: "github_token no_token_world = None"
    by (simp add: no_token_world_def)
  have b: "map src_attr (dom_images no_token_world shop_url)
       = [Some ''https://www.shop.example.com/a.png'',
          Some ''https://www.shop.example.com/b.png'',
          Some ''https://www.shop.example.com/c.png'']"
    by (simp add: no_token_world_def shop_world_def shop_images_def)
  have c: "while_true 1
      (image_iteration no_token_world ''sites/shop.example.com/img'' ''prompt'' shop_change) 0
      (image_loop_start no_token_world no_files shop_url shop_change)
    = Returned () (step_state
        (image_iteration no_token_world ''sites/shop.example.com/img'' ''prompt'' shop_change 0
           (image_loop_start no_token_world no_files shop_url shop_change)))"
    by (simp add: no_token_pass step_state_def)
  show ?thesis
    using a b
    by (simp add: process_image_loop[OF no_token_inventory no_token_specialist]
        no_token_sites_dir c no_token_upload)
      (simp add: no_token_pass step_state_def final_state_def emit_def)
qed

section \<open>The change log\<close>

lemma endswith_append:
  "length p \<le> length b \<Longrightarrow> endswith (a @ b) p = endswith b p"
  by (simp add: endswith_def)

lemma endswith_path_join:
  assumes "length p \<le> length b"
  shows "endswith (path_join a b) p = endswith b p"
proof -
  have "endswith (a @ ''/'' @ b) p = endswith (''/'' @ b) p"
    using assms by (intro endswith_append) simp
  also have "\<dots> = endswith b p"
    using assms by (rule endswith_append)
  finally have "endswith (a @ ''/'' @ b) p = endswith b p" .
  then show ?thesis
    using assms by (simp add: path_join_def endswith_append)
qed

lemma script_not_txt: "\<not> endswith (f @ ''/script.js'') ''.txt''"
  by (simp add: endswith_append) (simp add: endswith_def)

lemma png_not_txt: "\<not> endswith (path_join d (u @ ''.png'')) ''.txt''"
  by (simp add: endswith_path_join endswith_append) (simp add: endswith_def)

lemma capture_not_txt: "\<not> endswith (path_join d ''after_replacement.png'') ''.txt''"
  by (simp add: endswith_path_join) (simp add: endswith_def)

lemma read_file_update:
  "read_file (files(p \<mapsto> c)) q = (if p = q then c else read_file files q)"
  by (simp add: read_file_def)

lemma read_file_append_file:
  "read_file (append_file files p t) q
     = (if p = q then read_file files q @ t else read_file files q)"
  by (simp add: read_file_def append_file_def)

lemma appended_append:
  "appended q (xs @ ys) = appended q xs @ appended q ys"
  by (simp add: appended_def log_appends_append)

lemma appended_no_log:
  "log_appends es = [] \<Longrightarrow> appended q es = []"
  by (simp add: appended_def)

lemma appended_single:
  "appended q [LogAppend p t] = (if p = q then t else [])"
  by (simp add: appended_def)

lemma log_follows_write:
  "log_follows files s \<Longrightarrow> \<not> endswith p ''.txt'' \<Longrightarrow> log_appends es = [] \<Longrightarrow>
   log_follows files (s\<lparr>fs := (fs s)(p \<mapsto> c), trace := trace s @ es\<rparr>)"
  by (auto simp: log_follows_def read_file_update appended_append appended_no_log)

lemma log_follows_events:
  "log_follows files s \<Longrightarrow> log_appends es = [] \<Longrightarrow>
   log_follows files (s\<lparr>trace := trace s @ es\<rparr>)"
  by (auto simp: log_follows_def appended_append appended_no_log)

lemma log_follows_append:
  "log_follows files s \<Longrightarrow>
   log_follows files (s\<lparr>fs := append_file (fs s) p t, trace := trace s @ [LogAppend p t]\<rparr>)"
  by (auto simp: log_follows_def read_file_append_file appended_append appended_single)

lemma log_follows_other [simp]:
  "log_follows files (s\<lparr>input_items := xs\<rparr>) = log_follows files s"
  "log_follows files (s\<lparr>page := pg\<rparr>) = log_follows files s"
  by (simp_all add: log_follows_def)

lemma text_iteration_log:
  assumes "log_follows files s"
  shows "log_follows files (step_state (text_iteration w f i s))"
  using assms
  by (auto simp: text_iteration_def Let_def take_viewport_screenshot_def emit_def
      evaluate_script_def script_started_def step_state_def log_follows_def appended_def log_appends_append
      read_file_update read_file_append_file script_not_txt
      split: option.splits)

lemma image_iteration_log:
  assumes "log_follows files (fst sl)"
  shows "log_follows files (fst (step_state (image_iteration w d p c i sl)))"
  using assms
  by (cases sl)
    (auto simp: image_iteration_def observe_and_evaluate_def Let_def emit_def
      step_state_def log_follows_def appended_def log_appends_append
      read_file_update read_file_append_file png_not_txt capture_not_txt
      split: option.splits sum.splits)

lemma step_cases:
  "P (step_state x) \<Longrightarrow>
   (case x of Continue s' \<Rightarrow> P s' | Break r s' \<Rightarrow> P s' | Raise e s' \<Rightarrow> P s')"
  by (cases x) (simp_all add: step_state_def)

lemma image_step_cases:
  "P (step_state (image_iteration w d p c i sl)) \<Longrightarrow>
   (case image_iteration w d p c i sl of
      Continue s' \<Rightarrow> P s' | Break r s' \<Rightarrow> P s' | Raise e s' \<Rightarrow> False)"
  using image_iteration_no_raise[of w d p c i sl]
  by (cases "image_iteration w d p c i sl") (simp_all add: step_state_def)

lemma log_follows_opened: "log_follows files (opened w files url)"
  by (simp add: log_follows_def opened_def appended_def)

lemma log_follows_emit:
  "log_follows files s \<Longrightarrow> log_appends es = [] \<Longrightarrow> log_follows files (emit es s)"
  by (simp add: emit_def log_follows_events)

lemma text_run_log_follows:
  "log_follows files (final_state (process_text_optimization fuel w files url))"
proof -
  have start: "log_follows files (text_loop_start w files url)"
    by (simp add: log_follows_def text_loop_start_def appended_def)
  have step: "case text_iteration w (get_site_folder w url) i s of
      Continue s' \<Rightarrow> log_follows files s' | Break r s' \<Rightarrow> log_follows files s'
    | Raise e s' \<Rightarrow> log_follows files s'" if "log_follows files s" for i s
    using that by (intro step_cases text_iteration_log)
  note run = text_run_rule
    [where I = "log_follows files" and Q = "\<lambda>r. log_follows files"
       and R = "\<lambda>e. log_follows files" and w = w and files = files and url = url
       and fuel = fuel, OF start step]
  from run show ?thesis
    by (auto simp: final_state_def log_follows_emit split: outcome.splits)
qed

lemma image_run_log_follows:
  "log_follows files (final_state (process_image_optimization fuel w files url prompt))"
proof -
  have start: "log_follows files (fst (image_loop_start w files url change))" for change
    by (simp add: log_follows_def image_loop_start_def appended_def)
  have step: "case image_iteration w (image_sites_dir w url) prompt change i sl of
      Continue sl' \<Rightarrow> log_follows files (fst sl')
    | Break r sl' \<Rightarrow> log_follows files (fst sl')
    | Raise e sl' \<Rightarrow> False" if "log_follows files (fst sl)" for change i sl
    using that
    by (intro image_step_cases[where P = "\<lambda>sl. log_follows files (fst sl)"]
        image_iteration_log)
  note run = image_run_rule
    [where I = "\<lambda>sl. log_follows files (fst sl)"
       and Q = "\<lambda>change sl. log_follows files (fst sl)"
       and w = w and files = files and url = url and prompt = prompt and fuel = fuel,
     OF start step]
  from run show ?thesis
    by (auto simp: final_state_def log_follows_emit log_follows_opened
        split: outcome.splits option.splits)
qed

lemma run_jobs_log:
  "endswith q ''.txt'' \<Longrightarrow>
   read_file (fst (run_jobs fuel url jobs files)) q
     = read_file files q @ appended q (snd (run_jobs fuel url jobs files))"
proof (induction jobs arbitrary: files)
  case Nil
  then show ?case by (simp add: appended_def)
next
  case (Cons j js)
  have "log_follows files (run_job fuel url j files)"
    by (cases j) (simp_all add: run_job_def text_run_log_follows image_run_log_follows)
  with Cons.prems have one: "read_file (fs (run_job fuel url j files)) q
      = read_file files q @ appended q (trace (run_job fuel url j files))"
    by (simp add: log_follows_def)
  from Cons.IH[OF Cons.prems, of "fs (run_job fuel url j files)"] one
  show ?case by (simp add: Let_def appended_append)
qed

lemma text_iteration_logged:
  assumes "log_appends (trace s) = [] \<and> list_all nonpass (verdicts (trace s))"
  shows "case text_iteration w f i s of
           Continue s' \<Rightarrow> log_appends (trace s') = [] \<and> list_all nonpass (verdicts (trace s'))
         | Break r s' \<Rightarrow>
             log_appends (trace s') = [(f @ ''/log.txt'', ''- '' @ coder_response r @ newline)]
             \<and> verdicts (trace s') \<noteq> [] \<and> score (last (verdicts (trace s'))) = ''pass''
         | Raise e s' \<Rightarrow> log_appends (trace s') = []"
proof (cases "text_iteration w f i s")
  case (Continue s')
  from text_iteration_Continue[OF this] assms Continue show ?thesis
    by (auto simp: verdicts_append log_appends_append nonpass_def)
next
  case (Break r s')
  from text_iteration_Break[OF this] assms Break show ?thesis
    by (auto simp: verdicts_append log_appends_append)
next
  case (Raise e s')
  from text_iteration_Raise[OF this] assms Raise show ?thesis
    by (auto simp: log_appends_append)
qed

lemma text_run_logged:
  "case process_text_optimization fuel w files url of
     Returned r s \<Rightarrow>
       log_appends (trace s)
         = [(''sites/'' @ py_replace (urlparse_netloc w url) ''www.'' [] @ ''/log.txt'',
             ''- '' @ coder_response r @ newline)]
       \<and> verdicts (trace s) \<noteq> [] \<and> score (last (verdicts (trace s))) = ''pass''
   | Raised e s \<Rightarrow> log_appends (trace s) = []
   | Unfinished s \<Rightarrow> log_appends (trace s) = [] \<and> list_all nonpass (verdicts (trace s))"
proof -
  have start: "log_appends (trace (text_loop_start w files url)) = []
      \<and> list_all nonpass (verdicts (trace (text_loop_start w files url)))"
    by (simp add: text_loop_start_def)
  note run = text_run_rule
    [where I = "\<lambda>s. log_appends (trace s) = [] \<and> list_all nonpass (verdicts (trace s))"
       and Q = "\<lambda>r s. log_appends (trace s)
          = [(get_site_folder w url @ ''/log.txt'', ''- '' @ coder_response r @ newline)]
          \<and> verdicts (trace s) \<noteq> [] \<and> score (last (verdicts (trace s))) = ''pass''"
       and R = "\<lambda>e s. log_appends (trace s) = []"
       and w = w and files = files and url = url and fuel = fuel,
     OF start text_iteration_logged]
  from run show ?thesis
    by (auto simp: emit_def log_appends_append verdicts_append get_site_folder_def
        split: outcome.splits)
qed

lemma image_iteration_logged:
  assumes "log_appends (trace (fst sl)) = [] \<and> list_all nonpass (verdicts (trace (fst sl)))"
  shows "case image_iteration w d p c i sl of
           Continue sl' \<Rightarrow>
             log_appends (trace (fst sl')) = []
             \<and> list_all nonpass (verdicts (trace (fst sl')))
         | Break r sl' \<Rightarrow>
             log_appends (trace (fst sl'))
               = (if verdicts (trace (fst sl')) \<noteq> []
                     \<and> score (last (verdicts (trace (fst sl')))) = ''pass''
                  then [(d @ ''/log.txt'',
                         ''- '' @ ImageChange.change_description c @ newline)]
                  else [])
         | Raise e sl' \<Rightarrow> False"
proof (cases "image_iteration w d p c i sl")
  case (Continue sl')
  from image_iteration_retry[of w d p c i "fst sl" "snd sl" "fst sl'" "snd sl'"] Continue assms
  show ?thesis
    by (auto simp: verdicts_append log_appends_append nonpass_def)
next
  case (Break r sl')
  from image_iteration_Break[of w d p c i "fst sl" "snd sl" r "fst sl'" "snd sl'"] Break assms
    nonpass_last[of "verdicts (trace (fst sl))"]
  show ?thesis
    by (auto simp: verdicts_append log_appends_append)
next
  case (Raise e sl')
  with image_iteration_no_raise[of w d p c i sl] show ?thesis by simp
qed

lemma image_run_logged:
  "case process_image_optimization fuel w files url prompt of
     Returned None s \<Rightarrow> log_appends (trace s) = [] \<and> verdicts (trace s) = []
   | Returned (Some r) s \<Rightarrow>
       log_appends (trace s)
         = (if verdicts (trace s) \<noteq> [] \<and> score (last (verdicts (trace s))) = ''pass''
            then [(path_join (path_join ''sites''
                      (py_replace (urlparse_netloc w url) ''www.'' [])) ''img'' @ ''/log.txt'',
                   ''- '' @ image_specialist_response r @ newline)]
            else [])
   | Raised e s \<Rightarrow> log_appends (trace s) = [] \<and> verdicts (trace s) = []
   | Unfinished s \<Rightarrow> log_appends (trace s) = [] \<and> list_all nonpass (verdicts (trace s))"
proof -
  have start: "log_appends (trace (fst (image_loop_start w files url change))) = []
      \<and> list_all nonpass (verdicts (trace (fst (image_loop_start w files url change))))"
    for change
    by (simp add: image_loop_start_def)
  note run = image_run_rule
    [where I = "\<lambda>sl. log_appends (trace (fst sl)) = []
         \<and> list_all nonpass (verdicts (trace (fst sl)))"
       and Q = "\<lambda>change sl. log_appends (trace (fst sl))
               = (if verdicts (trace (fst sl)) \<noteq> []
                     \<and> score (last (verdicts (trace (fst sl)))) = ''pass''
                  then [(image_sites_dir w url @ ''/log.txt'',
                         ''- '' @ ImageChange.change_description change @ newline)]
                  else [])"
       and w = w and files = files and url = url and prompt = prompt and fuel = fuel,
     OF start image_iteration_logged]
  from run show ?thesis
    by (auto simp: emit_def opened_def log_appends_append verdicts_append image_sites_dir_def
        image_dict_def split: outcome.splits option.splits if_splits)
qed

text \<open>
  C7, as amended. A text run that returns has appended the one line \<^verbatim>\<open>- <description>\<close>
  and a newline to \<^verbatim>\<open>sites/<host without www.>/log.txt\<close>, after a verdict \<^verbatim>\<open>pass\<close>, and a
  text run that raises or is still in its loop has appended nothing. An image run that
  returns a result has appended exactly that one line when its last verdict is \<^verbatim>\<open>pass\<close>,
  and nothing otherwise, and it appends to the log of its own folder,
  \<^verbatim>\<open>sites/<host without www.>/img/log.txt\<close>; an image run that returns \<^verbatim>\<open>None\<close>, raises
  or is still in its loop has appended nothing. Both logs are only ever appended to:
  after any runs, one after the other, a file with a name ending in \<^verbatim>\<open>.txt\<close> holds what
  it held before them, followed by the lines appended to it, in the order of the runs.
\<close>

theorem change_log_append_only:
  "(case process_text_optimization fuel w files url of
      Returned r s \<Rightarrow>
        log_appends (trace s)
          = [(''sites/'' @ py_replace (urlparse_netloc w url) ''www.'' [] @ ''/log.txt'',
              ''- '' @ coder_response r @ newline)]
        \<and> verdicts (trace s) \<noteq> [] \<and> score (last (verdicts (trace s))) = ''pass''
    | Raised e s \<Rightarrow> log_appends (trace s) = []
    | Unfinished s \<Rightarrow> log_appends (trace s) = [] \<and> list_all nonpass (verdicts (trace s)))
   \<and> (case process_image_optimization fuel w files url prompt of
        Returned None s \<Rightarrow> log_appends (trace s) = [] \<and> verdicts (trace s) = []
      | Returned (Some r) s \<Rightarrow>
          log_appends (trace s)
            = (if verdicts (trace s) \<noteq> [] \<and> score (last (verdicts (trace s))) = ''pass''
               then [(path_join (path_join ''sites''
                         (py_replace (urlparse_netloc w url) ''www.'' [])) ''img''
                       @ ''/log.txt'',
                      ''- '' @ image_specialist_response r @ newline)]
               else [])
      | Raised e s \<Rightarrow> log_appends (trace s) = [] \<and> verdicts (trace s) = []
      | Unfinished s \<Rightarrow>
          log_appends (trace s) = [] \<and> list_all nonpass (verdicts (trace s)))
   \<and> (endswith q ''.txt'' \<longrightarrow>
        read_file (fst (run_jobs fuel url jobs files)) q
          = read_file files q @ appended q (snd (run_jobs fuel url jobs files)))"
  using text_run_logged[where fuel = fuel and w = w and files = files and url = url]
    image_run_logged
      [where fuel = fuel and w = w and files = files and url = url and prompt = prompt]
    run_jobs_log[where q = q and fuel = fuel and url = url and jobs = jobs and files = files]
  by blast

theorem change_log_append_only_witness:
  "endswith ''sites/shop.example.com/log.txt'' ''.txt''
   \<and> read_file (fst (run_jobs 3 shop_url [text_job shop_world, image_job shop_world ''prompt'']
          no_files)) ''sites/shop.example.com/log.txt''
       = read_file no_files ''sites/shop.example.com/log.txt''
         @ appended ''sites/shop.example.com/log.txt''
             (snd (run_jobs 3 shop_url [text_job shop_world, image_job shop_world ''prompt'']
                no_files))
   \<and> (\<exists>r s. process_image_optimization 1 shop_world no_files shop_url ''prompt''
               = Returned (Some r) s
          \<and> verdicts (trace s) = [\<lparr>feedback = ''fine'', score = ''pass''\<rparr>]
          \<and> log_appends (trace s)
              = [(''sites/shop.example.com/img/log.txt'', ''- warmer colours'' @ newline)])"
proof -
  have suffix: "endswith ''sites/shop.example.com/log.txt'' ''.txt''"
    by (simp add: endswith_def)
  from change_log_append_only
         [where fuel = 3 and url = shop_url and files = no_files
            and q = "''sites/shop.example.com/log.txt''"
            and jobs = "[text_job shop_world, image_job shop_world ''prompt'']"] suffix
  have jobs: "read_file (fst (run_jobs 3 shop_url
          [text_job shop_world, image_job shop_world ''prompt''] no_files))
          ''sites/shop.example.com/log.txt''
       = read_file no_files ''sites/shop.example.com/log.txt''
         @ appended ''sites/shop.example.com/log.txt''
             (snd (run_jobs 3 shop_url [text_job shop_world, image_job shop_world ''prompt'']
                no_files))"
    by blast
  from shop_image_returned obtain r where
    run: "process_image_optimization 1 shop_world no_files shop_url ''prompt''
         = Returned (Some r) (emit [BrowserClose] (fst shop_first_pass))"
    and r: "image_specialist_response r = ''warmer colours''"
    by auto
  have v: "verdicts (trace (emit [BrowserClose] (fst shop_first_pass)))
      = [\<lparr>feedback = ''fine'', score = ''pass''\<rparr>]"
    by (simp add: emit_def verdicts_append shop_first_pass_verdicts)
  have host: "py_replace (urlparse_netloc shop_world shop_url) ''www.'' [] = ''shop.example.com''"
    by (simp add: shop_world_def shop_site_name)
  from change_log_append_only
         [where fuel = 1 and w = shop_world and files = no_files and url = shop_url
            and prompt = "''prompt''"]
  have "case process_image_optimization 1 shop_world no_files shop_url ''prompt'' of
        Returned None s \<Rightarrow> log_appends (trace s) = [] \<and> verdicts (trace s) = []
      | Returned (Some r) s \<Rightarrow>
          log_appends (trace s)
            = (if verdicts (trace s) \<noteq> [] \<and> score (last (verdicts (trace s))) = ''pass''
               then [(path_join (path_join ''sites''
                         (py_replace (urlparse_netloc shop_world shop_url) ''www.'' [])) ''img''
                       @ ''/log.txt'',
                      ''- '' @ image_specialist_response r @ newline)]
               else [])
      | Raised e s \<Rightarrow> log_appends (trace s) = [] \<and> verdicts (trace s) = []
      | Unfinished s \<Rightarrow>
          log_appends (trace s) = [] \<and> list_all nonpass (verdicts (trace s))"
    by blast
  then have logged: "log_appends (trace (emit [BrowserClose] (fst shop_first_pass)))
      = [(''sites/shop.example.com/img/log.txt'', ''- warmer colours'' @ newline)]"
    unfolding run host
    by (simp add: v r path_join_def startswith_def endswith_def)
  from suffix jobs run v logged show ?thesis by simp
qed

text \<open>
  C7 as stated fails for an image run: the accepted change of the shop page is logged
  in \<^verbatim>\<open>sites/shop.example.com/img/log.txt\<close>, and \<^verbatim>\<open>sites/shop.example.com/log.txt\<close> does
  not exist afterwards.
\<close>

theorem change_log_append_only_counterexample:
  "py_replace (urlparse_netloc shop_world shop_url) ''www.'' [] = ''shop.example.com''
   \<and> log_appends (trace (final_state
        (process_image_optimization 1 shop_world no_files shop_url ''prompt'')))
       = [(''sites/shop.example.com/img/log.txt'', ''- warmer colours'' @ newline)]
   \<and> fs (final_state (process_image_optimization 1 shop_world no_files shop_url ''prompt''))
        ''sites/shop.example.com/log.txt'' = None
   \<and> fs (final_state (process_image_optimization 1 shop_world no_files shop_url ''prompt''))
        ''sites/shop.example.com/img/log.txt'' = Some (''- warmer colours'' @ newline)"
proof -
  have run: "final_state (process_image_optimization 1 shop_world no_files shop_url ''prompt'')
      = emit [BrowserClose] (fst shop_first_pass)"
    by (simp add: process_image_loop[OF shop_inventory_nonempty shop_specialist]
        shop_first_pass_break final_state_def)
  have host: "py_replace (urlparse_netloc shop_world shop_url) ''www.'' [] = ''shop.example.com''"
    by (simp add: shop_world_def shop_site_name)
  show ?thesis
    unfolding run using host
    by (simp add: emit_def log_appends_append shop_first_pass_log)
qed

section \<open>Two failures and a pass\<close>

lemma script_not_log: "f @ ''/script.js'' \<noteq> f @ ''/log.txt''"
  by simp

text \<open>
  A script that throws when it is evaluated again: the run raises after the verdict
  \<^verbatim>\<open>pass\<close>, at the second evaluation, and no line is appended to the log.
\<close>

lemma rerun_throws:
  "\<exists>s. process_text_optimization 1 rerun_world no_files shop_url = Raised ScriptError s
     \<and> trace s
         = [SetViewportSize 1920 880, SetViewportSize 1920 968, ViewportScreenshot 968,
            CoderRun, FileWrite ''sites/shop.example.com/script.js'',
            PageEvaluate (coder_script ''s''),
            SetViewportSize 1920 1064, ViewportScreenshot 1064,
            EvaluatorRun \<lparr>feedback = ''good'', score = ''pass''\<rparr>,
            PageEvaluate (coder_script ''s'')]
     \<and> fs s ''sites/shop.example.com/log.txt'' = None"
proof -
  have folder: "get_site_folder rerun_world shop_url = ''sites/shop.example.com''"
    by (simp add: get_site_folder_def rerun_world_def shop_world_def shop_site_name)
  show ?thesis
    unfolding process_text_loop folder
    by (simp add: text_iteration_def Let_def take_viewport_screenshot_def emit_def
        evaluate_script_def script_started_def text_loop_start_def rerun_world_def
        shop_world_def shop_coder_def shop_proposal_def
        int_times_1_1_small open_page_def no_files_def)
qed

text \<open>
  C3: what the code does in the scenario. When the coder's three first runs give
  proposals, none of their scripts throws on the page, and the evaluator fails the first
  two and passes the third, a text run followed for three passes or more returns. The
  coder has then run three times; one line, that of the third proposal, has been appended
  to the log; the scripts evaluated on the page are the first, the second, the third and
  the third again; and the third script's second evaluation comes after the passing
  verdict and before the last capture, which is the screenshot that the run returns,
  taken of the page as the run leaves it. That screenshot is not stored: the files after
  the run are the files before it with the third script in \<^verbatim>\<open>script.js\<close> and the line
  added to \<^verbatim>\<open>log.txt\<close>, and the run has written to no other file.
\<close>

theorem text_fail_fail_pass:
  assumes c1: "\<And>items. coder w 0 items = Some c1"
    and c2: "\<And>items. coder w 1 items = Some c2"
    and c3: "\<And>items. coder w 2 items = Some c3"
    and e1: "\<And>items. evaluator w 0 items = Some e1"
    and e2: "\<And>items. evaluator w 1 items = Some e2"
    and e3: "\<And>items. evaluator w 2 items = Some e3"
    and s1: "score e1 = ''fail''" and s2: "score e2 = ''fail''" and s3: "score e3 = ''pass''"
    and t1: "\<And>pg. \<not> script_throws w pg (JSOutput.script (final_output c1))"
    and t2: "\<And>pg. \<not> script_throws w pg (JSOutput.script (final_output c2))"
    and t3: "\<And>pg. \<not> script_throws w pg (JSOutput.script (final_output c3))"
    and fuel: "3 \<le> fuel"
  shows "\<exists>r s. process_text_optimization fuel w files url = Returned r s
     \<and> count_list (trace s) CoderRun = 3
     \<and> log_appends (trace s)
         = [(get_site_folder w url @ ''/log.txt'',
             ''- '' @ JSOutput.change_description (final_output c3) @ newline)]
     \<and> read_file (fs s) (get_site_folder w url @ ''/log.txt'')
         = read_file files (get_site_folder w url @ ''/log.txt'')
           @ ''- '' @ JSOutput.change_description (final_output c3) @ newline
     \<and> evaluated (page s)
         = [coder_script (JSOutput.script (final_output c1)),
            coder_script (JSOutput.script (final_output c2)),
            coder_script (JSOutput.script (final_output c3)),
            coder_script (JSOutput.script (final_output c3))]
     \<and> text_result.script r = JSOutput.script (final_output c3)
     \<and> text_result.screenshot r = b64encode w (page_screenshot w False (page s))
     \<and> trace s
         = [SetViewportSize 1920 880, SetViewportSize 1920 968, ViewportScreenshot 968,
            CoderRun, FileWrite (get_site_folder w url @ ''/script.js''),
            PageEvaluate (coder_script (JSOutput.script (final_output c1))),
            SetViewportSize 1920 1064, ViewportScreenshot 1064, EvaluatorRun e1,
            CoderRun, FileWrite (get_site_folder w url @ ''/script.js''),
            PageEvaluate (coder_script (JSOutput.script (final_output c2))),
            SetViewportSize 1920 1170, ViewportScreenshot 1170, EvaluatorRun e2,
            CoderRun, FileWrite (get_site_folder w url @ ''/script.js''),
            PageEvaluate (coder_script (JSOutput.script (final_output c3))),
            SetViewportSize 1920 1287, ViewportScreenshot 1287, EvaluatorRun e3,
            PageEvaluate (coder_script (JSOutput.script (final_output c3))),
            SetViewportSize 1920 1415, ViewportScreenshot 1415,
            LogAppend (get_site_folder w url @ ''/log.txt'')
              (''- '' @ JSOutput.change_description (final_output c3) @ newline),
            BrowserClose]
     \<and> fs s
         = files(get_site_folder w url @ ''/script.js'' \<mapsto> JSOutput.script (final_output c3),
                 get_site_folder w url @ ''/log.txt'' \<mapsto>
                   read_file files (get_site_folder w url @ ''/log.txt'')
                   @ ''- '' @ JSOutput.change_description (final_output c3) @ newline)"
proof -
  from fuel obtain n where n: "fuel = Suc (Suc (Suc n))"
    by (metis Suc_le_D numeral_3_eq_3 Suc_le_mono)
  have c2': "coder w (Suc 0) items = Some c2" for items using c2 by simp
  have c3': "coder w (Suc (Suc 0)) items = Some c3" for items
    using c3 by (simp add: numeral_2_eq_2)
  have e2': "evaluator w (Suc 0) items = Some e2" for items using e2 by simp
  have e3': "evaluator w (Suc (Suc 0)) items = Some e3" for items
    using e3 by (simp add: numeral_2_eq_2)
  show ?thesis
    unfolding process_text_loop n
    by (simp add: text_iteration_def Let_def take_viewport_screenshot_def emit_def
        evaluate_script_def script_started_def text_loop_start_def
        c1 c2' c3' e1 e2' e3' s1 s2 s3 t1 t2 t3
        int_times_1_1_small log_line_def append_file_def read_file_def script_not_txt
        script_not_log open_page_def)
qed

theorem text_fail_fail_pass_witness:
  "(\<forall>items. coder shop_world 0 items = Some (shop_proposal 0))
   \<and> (\<forall>items. coder shop_world 1 items = Some (shop_proposal 1))
   \<and> (\<forall>items. coder shop_world 2 items = Some (shop_proposal 2))
   \<and> (\<forall>items. evaluator shop_world 0 items = Some (shop_verdict 0))
   \<and> (\<forall>items. evaluator shop_world 1 items = Some (shop_verdict 1))
   \<and> (\<forall>items. evaluator shop_world 2 items = Some (shop_verdict 2))
   \<and> score (shop_verdict 0) = ''fail'' \<and> score (shop_verdict 1) = ''fail''
   \<and> score (shop_verdict 2) = ''pass''
   \<and> (\<forall>pg code. \<not> script_throws shop_world pg code)
   \<and> (3::nat) \<le> 3
   \<and> (\<exists>r s. process_text_optimization 3 shop_world no_files shop_url = Returned r s
         \<and> count_list (trace s) CoderRun = 3
         \<and> log_appends (trace s) = [(''sites/shop.example.com/log.txt'', ''- d++'' @ newline)]
         \<and> evaluated (page s)
             = [coder_script ''s'', coder_script ''s+'', coder_script ''s++'',
                coder_script ''s++'']
         \<and> text_result.screenshot r
             = b64encode shop_world (page_screenshot shop_world False (page s))
         \<and> fs s = no_files(''sites/shop.example.com/script.js'' \<mapsto> ''s++'',
                            ''sites/shop.example.com/log.txt'' \<mapsto> ''- d++'' @ newline))"
proof -
  have c: "coder shop_world i items = Some (shop_proposal i)" for i items
    by (simp add: shop_world_def shop_coder_def)
  have e: "evaluator shop_world i items = Some (shop_verdict i)" for i items
    by (simp add: shop_world_def shop_evaluator_def)
  have s: "score (shop_verdict 0) = ''fail''" "score (shop_verdict 1) = ''fail''"
    "score (shop_verdict 2) = ''pass''"
    by (simp_all add: shop_verdict_def)
  have t: "\<not> script_throws shop_world pg code" for pg code
    by (simp add: shop_world_def)
  have f: "(3::nat) \<le> 3" by simp
  have p: "JSOutput.script (final_output (shop_proposal 0)) = ''s''"
    "JSOutput.script (final_output (shop_proposal 1)) = ''s+''"
    "JSOutput.script (final_output (shop_proposal 2)) = ''s++''"
    "JSOutput.change_description (final_output (shop_proposal 2)) = ''d++''"
    "JSOutput.script (final_output (shop_proposal (Suc 0))) = ''s+''"
    by (simp_all add: shop_proposal_def numeral_2_eq_2)
  have old: "read_file no_files ''sites/shop.example.com/log.txt'' = []"
    by (simp add: read_file_def no_files_def)
  from text_fail_fail_pass
         [of shop_world "shop_proposal 0" "shop_proposal 1" "shop_proposal 2"
            "shop_verdict 0" "shop_verdict 1" "shop_verdict 2" 3 no_files shop_url,
          OF c c c e e e s t t t f]
  have run: "\<exists>r st. process_text_optimization 3 shop_world no_files shop_url = Returned r st
    \<and> count_list (trace st) CoderRun = 3
    \<and> log_appends (trace st) = [(''sites/shop.example.com/log.txt'', ''- d++'' @ newline)]
    \<and> evaluated (page st)
       = [coder_script ''s'', coder_script ''s+'', coder_script ''s++'', coder_script ''s++'']
    \<and> text_result.screenshot r
       = b64encode shop_world (page_screenshot shop_world False (page st))
    \<and> fs st = no_files(''sites/shop.example.com/script.js'' \<mapsto> ''s++'',
                      ''sites/shop.example.com/log.txt'' \<mapsto> ''- d++'' @ newline)"
    by (auto simp: shop_site_folder p old)
  show ?thesis
    using c e s t f run by blast
qed

end
